theory Spec2Isabelle
  imports Complex_Main "HOL-Library.Word" "HOL-Library.Char_ord" "HOL-Library.List_Lexorder"
    "HOL-Library.Multiset"
begin

unbundle bit_operations_syntax

section \<open>Python values, dictionaries and strings\<close>

text \<open>
  The backend is Python. A dictionary literal is an association list in insertion order;
  a subscript \<^verbatim>\<open>d[k]\<close> on a missing key raises \<^verbatim>\<open>KeyError\<close>, and a numeric
  comparison on a string raises \<^verbatim>\<open>TypeError\<close>. Both are results of the model.
  Floats only occur as the decimal literals of the reference table and as \<^verbatim>\<open>0.0\<close>;
  they are compared with each other and with the thresholds of
  \<^verbatim>\<open>_interpret_confidence\<close>, so they are modelled by the rationals they denote.
  Strings are lists of 8-bit characters (code points below 256).
\<close>

datatype py_error = KeyError | TypeError

datatype pyval = PStr string | PFloat rat | PInt int | PBool bool

type_synonym pydict = "(string \<times> pyval) list"

definition and_then :: "py_error + 'a \<Rightarrow> ('a \<Rightarrow> py_error + 'b) \<Rightarrow> py_error + 'b" where
  "and_then m f = (case m of Inl e \<Rightarrow> Inl e | Inr x \<Rightarrow> f x)"

definition getitem :: "pydict \<Rightarrow> string \<Rightarrow> py_error + pyval" where
  "getitem d k = (case map_of d k of None \<Rightarrow> Inl KeyError | Some v \<Rightarrow> Inr v)"

fun as_number :: "pyval \<Rightarrow> py_error + rat" where
  "as_number (PFloat r) = Inr r"
| "as_number (PInt i) = Inr (of_int i)"
| "as_number (PBool b) = Inr (if b then 1 else 0)"
| "as_number (PStr s) = Inl TypeError"

text \<open>\<^verbatim>\<open>str.isspace\<close> on the code points below 256.\<close>

definition isspace :: "char \<Rightarrow> bool" where
  "isspace c = (of_char c \<in> set [9, 10, 11, 12, 13, 28, 29, 30, 31, 32, 133, 160 :: nat])"

text \<open>
  The code points of a string. \<^verbatim>\<open>str.upper\<close> of a string of code points below 256
  can leave that range and can be longer than the string, so its result is a list of code
  points: the lower-case letters of ASCII and of Latin-1 move down by 32, the upper-case
  form of U+00DF is the two letters \<^verbatim>\<open>SS\<close>, that of U+00B5 is U+039C and that of
  U+00FF is U+0178; U+00F7 is the division sign, and every other character is kept.
\<close>

definition code_points :: "string \<Rightarrow> nat list" where
  "code_points s = map of_char s"

definition upper_char :: "char \<Rightarrow> nat list" where
  "upper_char c = (let n = (of_char c :: nat) in
     if 97 \<le> n \<and> n \<le> 122 then [n - 32]
     else if n = 181 then [924]
     else if n = 223 then [83, 83]
     else if 224 \<le> n \<and> n \<le> 254 \<and> n \<noteq> 247 then [n - 32]
     else if n = 255 then [376]
     else [n])"

definition upper :: "string \<Rightarrow> nat list" where
  "upper s = concat (map upper_char s)"

text \<open>
  \<^verbatim>\<open>str.lower\<close> on the code points below 256 stays in that range: the upper-case
  letters of ASCII and of Latin-1 move up by 32 (U+00D7 is the multiplication sign).
\<close>

definition lower_char :: "char \<Rightarrow> char" where
  "lower_char c = (let n = (of_char c :: nat) in
     if (65 \<le> n \<and> n \<le> 90) \<or> (192 \<le> n \<and> n \<le> 222 \<and> n \<noteq> 215) then char_of (n + 32) else c)"

definition lower :: "string \<Rightarrow> string" where
  "lower s = map lower_char s"

text \<open>
  \<^verbatim>\<open>p in s\<close> on strings: \<open>p\<close> occurs in \<open>s\<close> as a contiguous substring. The
  strings are lists of characters or of code points.
\<close>

fun starts_with :: "'a list \<Rightarrow> 'a list \<Rightarrow> bool" where
  "starts_with [] s = True"
| "starts_with (p # ps) [] = False"
| "starts_with (p # ps) (c # cs) = (p = c \<and> starts_with ps cs)"

fun contains :: "'a list \<Rightarrow> 'a list \<Rightarrow> bool" where
  "contains p [] = (p = [])"
| "contains p (c # cs) = (starts_with p (c # cs) \<or> contains p cs)"

section \<open>IdentifyFishSpeciesTool\<close>

text \<open>
  \<^verbatim>\<open>clean_seq = "".join(sequence.split()).upper()\<close>: \<^verbatim>\<open>split()\<close> cuts at the
  characters of \<^verbatim>\<open>str.isspace\<close>. The cleaned sequence is a list of code points.
\<close>

definition clean_seq :: "string \<Rightarrow> nat list" where
  "clean_seq sequence = upper (filter (\<lambda>c. \<not> isspace c) sequence)"

definition reference_db :: "(string \<times> pydict) list" where
  "reference_db =
    [(''ACTGGTCA'',
        [(''species'', PStr ''Oncorhynchus mykiss''),
         (''common_name'', PStr ''Rainbow trout''),
         (''family'', PStr ''Salmonidae''),
         (''order'', PStr ''Salmoniformes''),
         (''confidence'', PFloat (98 / 100)),
         (''reference_id'', PStr ''BOLD:AAC1234''),
         (''genbank_id'', PStr ''KX123456'')]),
     (''TGACCTGA'',
        [(''species'', PStr ''Cyprinus carpio''),
         (''common_name'', PStr ''Common carp''),
         (''family'', PStr ''Cyprinidae''),
         (''order'', PStr ''Cypriniformes''),
         (''confidence'', PFloat (95 / 100)),
         (''reference_id'', PStr ''BOLD:AAC5678''),
         (''genbank_id'', PStr ''KX789012'')]),
     (''GCTATGCC'',
        [(''species'', PStr ''Salmo salar''),
         (''common_name'', PStr ''Atlantic salmon''),
         (''family'', PStr ''Salmonidae''),
         (''order'', PStr ''Salmoniformes''),
         (''confidence'', PFloat (97 / 100)),
         (''reference_id'', PStr ''BOLD:AAC9101''),
         (''genbank_id'', PStr ''KX345678'')])]"

text \<open>
  The loop over \<^verbatim>\<open>reference_db.items()\<close>: the state is
  \<^verbatim>\<open>(best_match, best_score)\<close>, \<open>None\<close> for Python's \<^verbatim>\<open>None\<close>. The test
  \<^verbatim>\<open>ref_pattern in clean_seq\<close> compares code points.
\<close>

fun find_best :: "(string \<times> pydict) list \<Rightarrow> nat list \<Rightarrow> pydict option \<times> rat
    \<Rightarrow> py_error + (pydict option \<times> rat)" where
  "find_best [] s st = Inr st"
| "find_best ((ref_pattern, ref_data) # rest) s (best_match, best_score) =
     (if contains (code_points ref_pattern) s then
        and_then (getitem ref_data ''confidence'') (\<lambda>v.
        and_then (as_number v) (\<lambda>match_score.
          if match_score > best_score
          then find_best rest s (Some ref_data, match_score)
          else find_best rest s (best_match, best_score)))
      else find_best rest s (best_match, best_score))"

definition interpret_confidence :: "rat \<Rightarrow> string" where
  "interpret_confidence confidence =
     (if confidence \<ge> 95 / 100 then
        ''Highly confident identification. Species match is very reliable.''
      else if confidence \<ge> 90 / 100 then
        ''Confident identification. Species match is reliable.''
      else if confidence \<ge> 80 / 100 then
        ''Moderate confidence. Consider confirming with additional markers.''
      else ''Low confidence. Manual review recommended.'')"

definition unknown_species :: pydict where
  "unknown_species =
     [(''species'', PStr ''Unknown''),
      (''common_name'', PStr ''Unidentified fish species''),
      (''confidence'', PFloat 0),
      (''note'', PStr (''No match found in reference database. Sequence may be from '' @
                      ''a rare species or contain errors. Consider manual BLAST search.''))]"

text \<open>
  \<^verbatim>\<open>IdentifyFishSpeciesTool.execute(sequence, gene_region)\<close>. The test
  \<^verbatim>\<open>if not best_match\<close> holds for \<^verbatim>\<open>None\<close> and for an empty dictionary.
\<close>

definition identify_fish_species :: "string \<Rightarrow> string \<Rightarrow> py_error + pydict" where
  "identify_fish_species sequence gene_region =
     and_then (find_best reference_db (clean_seq sequence) (None, 0)) (\<lambda>(best_match, best_score).
       case best_match of
         None \<Rightarrow> Inr unknown_species
       | Some bm \<Rightarrow>
           if bm = [] then Inr unknown_species
           else
             and_then (getitem bm ''species'') (\<lambda>species.
             and_then (getitem bm ''common_name'') (\<lambda>common_name.
             and_then (getitem bm ''family'') (\<lambda>family.
             and_then (getitem bm ''order'') (\<lambda>order_name.
             and_then (getitem bm ''confidence'') (\<lambda>confidence.
             and_then (getitem bm ''reference_id'') (\<lambda>reference_id.
             and_then (getitem bm ''genbank_id'') (\<lambda>genbank_id.
             and_then (as_number confidence) (\<lambda>c.
               Inr [(''species'', species),
                    (''common_name'', common_name),
                    (''family'', family),
                    (''order'', order_name),
                    (''confidence'', confidence),
                    (''gene_region'', PStr gene_region),
                    (''reference_database'', PStr ''BOLD Systems''),
                    (''reference_id'', reference_id),
                    (''genbank_id'', genbank_id),
                    (''sequence_length'', PInt (int (length (clean_seq sequence)))),
                    (''interpretation'', PStr (interpret_confidence c))])))))))))"

section \<open>Intent router\<close>

text \<open>
  \<^verbatim>\<open>classify_intent\<close> calls \<^verbatim>\<open>re.search(pattern, message)\<close> and only tests whether
  a match exists, so a regular expression is modelled by the set of positions at which a
  match that starts at a given position can end. The constructors are the ones the
  patterns of the source use: literal characters, \<^verbatim>\<open>\s\<close>, \<^verbatim>\<open>\b\<close>, concatenation,
  \<^verbatim>\<open>|\<close>, \<^verbatim>\<open>?\<close> and \<^verbatim>\<open>+\<close>. No flag is passed to \<^verbatim>\<open>re.search\<close>: a literal
  matches the same character only.
\<close>

datatype regex =
    Eps
  | Lit char
  | Space
  | WordB
  | Seq regex regex
  | Alt regex regex
  | Opt regex
  | Plus regex

text \<open>
  \<^verbatim>\<open>\w\<close> of a \<^verbatim>\<open>str\<close> pattern on the code points below 256: alphanumeric
  characters and the underscore.
\<close>

definition is_word :: "char \<Rightarrow> bool" where
  "is_word c = (let n = (of_char c :: nat) in
     (48 \<le> n \<and> n \<le> 57) \<or> (65 \<le> n \<and> n \<le> 90) \<or> n = 95 \<or> (97 \<le> n \<and> n \<le> 122) \<or>
     n \<in> set [170, 178, 179, 181, 185, 186, 188, 189, 190] \<or>
     (192 \<le> n \<and> n \<le> 214) \<or> (216 \<le> n \<and> n \<le> 246) \<or> 248 \<le> n)"

text \<open>\<^verbatim>\<open>\b\<close> at position \<open>i\<close>: exactly one side of the position is a word character.\<close>

definition at_boundary :: "string \<Rightarrow> nat \<Rightarrow> bool" where
  "at_boundary s i =
     ((0 < i \<and> i \<le> length s \<and> is_word (s ! (i - 1))) \<noteq> (i < length s \<and> is_word (s ! i)))"

text \<open>
  One or more repetitions: the positions reached after 1, 2, ... rounds. Positions never
  exceed the length of the string, so \<open>length s + 1\<close> rounds reach all of them.
\<close>

fun rounds :: "(nat \<Rightarrow> nat list) \<Rightarrow> nat \<Rightarrow> nat list \<Rightarrow> nat list" where
  "rounds f 0 front = []"
| "rounds f (Suc n) front = (let reached = concat (map f front) in reached @ rounds f n reached)"

primrec ends :: "regex \<Rightarrow> string \<Rightarrow> nat \<Rightarrow> nat list" where
  "ends Eps s i = [i]"
| "ends (Lit c) s i = (if i < length s \<and> s ! i = c then [i + 1] else [])"
| "ends Space s i = (if i < length s \<and> isspace (s ! i) then [i + 1] else [])"
| "ends WordB s i = (if at_boundary s i then [i] else [])"
| "ends (Seq a b) s i = concat (map (ends b s) (ends a s i))"
| "ends (Alt a b) s i = ends a s i @ ends b s i"
| "ends (Opt a) s i = ends a s i @ [i]"
| "ends (Plus a) s i = rounds (ends a s) (Suc (length s)) [i]"

text \<open>\<^verbatim>\<open>re.search(pattern, message)\<close> as a truth value: a match starts somewhere.\<close>

definition search :: "regex \<Rightarrow> string \<Rightarrow> bool" where
  "search r s = list_ex (\<lambda>i. ends r s i \<noteq> []) [0..<Suc (length s)]"

definition lit :: "string \<Rightarrow> regex" where
  "lit w = foldr (\<lambda>c r. Seq (Lit c) r) w Eps"

text \<open>\<^verbatim>\<open>r"\bpcr\b|\bfish\s+species\b|\bdna\s+sequence\b"\<close>\<close>

definition pcr_pattern :: regex where
  "pcr_pattern =
     Alt (Seq WordB (Seq (lit ''pcr'') WordB))
    (Alt (Seq WordB (Seq (lit ''fish'') (Seq (Plus Space) (Seq (lit ''species'') WordB))))
         (Seq WordB (Seq (lit ''dna'') (Seq (Plus Space) (Seq (lit ''sequence'') WordB)))))"

text \<open>\<^verbatim>\<open>r"\bexperiment(s)?\b|\bplan\s+experiment\b"\<close>\<close>

definition experiment_pattern :: regex where
  "experiment_pattern =
     Alt (Seq WordB (Seq (lit ''experiment'') (Seq (Opt (Lit CHR ''s'')) WordB)))
         (Seq WordB (Seq (lit ''plan'') (Seq (Plus Space) (Seq (lit ''experiment'') WordB))))"

text \<open>
  \<^verbatim>\<open>classify_intent(message)\<close> as the source shows it: two tests, each with its
  \<^verbatim>\<open>return\<close>, and then the comment \<^verbatim>\<open># ... etc\<close>. When neither test succeeds,
  the function as shown falls off its end and returns Python's \<^verbatim>\<open>None\<close>, which is
  \<open>None\<close> here. The rules that follow in \<^verbatim>\<open>backend/main.py\<close> and what the function
  returns after them are not in the sources.
\<close>

definition classify_intent :: "string \<Rightarrow> (string \<times> string) option" where
  "classify_intent message =
     (if search pcr_pattern message then Some (''pcr_fish_agent'', ''pcr_fish_operation'')
      else if search experiment_pattern message then Some (''experiment_agent'', ''experiment_operation'')
      else None)"

text \<open>
  A rule is a test on the message with the pair \<^verbatim>\<open>(agent, intent)\<close> it returns; these
  are the two rules of the source, in the order of the source.
\<close>

type_synonym rule = "(string \<Rightarrow> bool) \<times> (string \<times> string)"

definition pcr_rule :: rule where
  "pcr_rule = (search pcr_pattern, (''pcr_fish_agent'', ''pcr_fish_operation''))"

definition experiment_rule :: rule where
  "experiment_rule = (search experiment_pattern, (''experiment_agent'', ''experiment_operation''))"

text \<open>
  Modelled from the spec: the evaluation of a list of rules. The spec (section 4.1):
  an ordered list of \<^verbatim>\<open>(pattern, agent_id, intent_label)\<close> rules evaluated top to
  bottom; the first matching rule wins; if no rule matches, a configured default agent is
  returned.
\<close>

fun first_match :: "rule list \<Rightarrow> string \<times> string \<Rightarrow> string \<Rightarrow> string \<times> string" where
  "first_match [] default_target message = default_target"
| "first_match ((matches, target) # rules) default_target message =
     (if matches message then target else first_match rules default_target message)"

text \<open>
  Modelled from the spec: \<^verbatim>\<open>route(message)\<close>, the router with the part that the
  source elides. It is \<^verbatim>\<open>classify_intent\<close> continued where the source stops: by the
  rules after the two of the source, the parameter \<open>rest\<close>, and by the pair of the
  configured default agent, \<open>default_target\<close>.
\<close>

definition route :: "rule list \<Rightarrow> string \<times> string \<Rightarrow> string \<Rightarrow> string \<times> string" where
  "route rest default_target message =
     (case classify_intent message of
        Some target \<Rightarrow> target
      | None \<Rightarrow> first_match rest default_target message)"

text \<open>The rules in declaration order: the two of the source, then the elided ones.\<close>

definition declared_rules :: "rule list \<Rightarrow> rule list" where
  "declared_rules rest = pcr_rule # experiment_rule # rest"

text \<open>
  A syntactic bound used in the proofs: characters one of which occurs in every string
  in which the expression has a match (\<open>None\<close> when there is no such bound).
\<close>

fun required :: "regex \<Rightarrow> char list option" where
  "required Eps = None"
| "required (Lit c) = Some [c]"
| "required Space = None"
| "required WordB = None"
| "required (Seq a b) = (case required a of Some cs \<Rightarrow> Some cs | None \<Rightarrow> required b)"
| "required (Alt a b) =
     (case required a of None \<Rightarrow> None
      | Some xs \<Rightarrow> (case required b of None \<Rightarrow> None | Some ys \<Rightarrow> Some (xs @ ys)))"
| "required (Opt a) = None"
| "required (Plus a) = required a"

section \<open>JSON data and its canonical serialization\<close>

text \<open>
  Experiment data is JSON data: what \<^verbatim>\<open>json.loads\<close> returns and \<^verbatim>\<open>json.dumps\<close>
  accepts. A dictionary is an association list in insertion order, with string keys. A
  float is carried as the text \<^verbatim>\<open>repr\<close> gives it, which is what \<^verbatim>\<open>json.dumps\<close>
  writes for it.
\<close>

datatype json =
    JNull
  | JBool bool
  | JInt int
  | JFloat string
  | JStr string
  | JList "json list"
  | JDict "(string \<times> json) list"

text \<open>\<^verbatim>\<open>str(n)\<close> for an integer.\<close>

definition digit_char :: "nat \<Rightarrow> char" where
  "digit_char d = char_of (48 + d)"

fun str_nat :: "nat \<Rightarrow> string" where
  "str_nat n = (if n < 10 then [digit_char n] else str_nat (n div 10) @ [digit_char (n mod 10)])"

definition str_int :: "int \<Rightarrow> string" where
  "str_int i = (if i < 0 then CHR ''-'' # str_nat (nat (- i)) else str_nat (nat i))"

text \<open>
  String escaping of \<^verbatim>\<open>json.dumps\<close> with its default \<^verbatim>\<open>ensure_ascii=True\<close>: the
  quote, the backslash and five control characters have short escapes, every other
  character outside \<^verbatim>\<open>' '..'~'\<close> is written \<^verbatim>\<open>\u00xx\<close> in lower-case hexadecimal.
\<close>

definition hex_char :: "nat \<Rightarrow> char" where
  "hex_char d = (if d < 10 then char_of (48 + d) else char_of (87 + d))"

definition escape_char :: "char \<Rightarrow> string" where
  "escape_char c = (let n = (of_char c :: nat) in
     if n = 34 then [CHR 0x5C, CHR 0x22]
     else if n = 92 then [CHR 0x5C, CHR 0x5C]
     else if n = 10 then [CHR 0x5C, CHR ''n'']
     else if n = 13 then [CHR 0x5C, CHR ''r'']
     else if n = 9 then [CHR 0x5C, CHR ''t'']
     else if n = 8 then [CHR 0x5C, CHR ''b'']
     else if n = 12 then [CHR 0x5C, CHR ''f'']
     else if 32 \<le> n \<and> n \<le> 126 then [c]
     else [CHR 0x5C, CHR ''u'', CHR ''0'', CHR ''0'', hex_char (n div 16), hex_char (n mod 16)])"

definition quote :: "string \<Rightarrow> string" where
  "quote s = [CHR 0x22] @ concat (map escape_char s) @ [CHR 0x22]"

text \<open>\<^verbatim>\<open>sep.join(parts)\<close>\<close>

fun join :: "string \<Rightarrow> string list \<Rightarrow> string" where
  "join sep [] = []"
| "join sep [x] = x"
| "join sep (x # y # ys) = x @ sep @ join sep (y # ys)"

text \<open>
  \<^verbatim>\<open>json.dumps(data, sort_keys=True)\<close> with the default separators \<^verbatim>\<open>', '\<close> and
  \<^verbatim>\<open>': '\<close>: the items of every dictionary are written in the order of their keys.
\<close>

definition dict_text :: "(string \<times> string) list \<Rightarrow> string" where
  "dict_text items =
     ''{'' @ join '', '' (map (\<lambda>(k, v). quote k @ '': '' @ v) (sort_key fst items)) @ ''}''"

fun dumps :: "json \<Rightarrow> string" where
  "dumps JNull = ''null''"
| "dumps (JBool b) = (if b then ''true'' else ''false'')"
| "dumps (JInt i) = str_int i"
| "dumps (JFloat r) = r"
| "dumps (JStr s) = quote s"
| "dumps (JList xs) = ''['' @ join '', '' (map dumps xs) @ '']''"
| "dumps (JDict kvs) = dict_text (map (\<lambda>(k, v). (k, dumps v)) kvs)"

section \<open>SHA-256\<close>

text \<open>
  \<^verbatim>\<open>hashlib.sha256(data).hexdigest()\<close>: the hash function of FIPS 180-4 on a list of
  bytes, and the digest as 64 lower-case hexadecimal digits.
\<close>

type_synonym word32 = "32 word"
type_synonym sha_state = "word32 \<times> word32 \<times> word32 \<times> word32 \<times> word32 \<times> word32 \<times> word32 \<times> word32"

text \<open>The round constants, eight rounds to a row.\<close>

definition K256 :: "word32 list" where
  "K256 =
     [0x428a2f98, 0x71374491, 0xb5c0fbcf, 0xe9b5dba5, 0x3956c25b, 0x59f111f1, 0x923f82a4, 0xab1c5ed5] @
     [0xd807aa98, 0x12835b01, 0x243185be, 0x550c7dc3, 0x72be5d74, 0x80deb1fe, 0x9bdc06a7, 0xc19bf174] @
     [0xe49b69c1, 0xefbe4786, 0x0fc19dc6, 0x240ca1cc, 0x2de92c6f, 0x4a7484aa, 0x5cb0a9dc, 0x76f988da] @
     [0x983e5152, 0xa831c66d, 0xb00327c8, 0xbf597fc7, 0xc6e00bf3, 0xd5a79147, 0x06ca6351, 0x14292967] @
     [0x27b70a85, 0x2e1b2138, 0x4d2c6dfc, 0x53380d13, 0x650a7354, 0x766a0abb, 0x81c2c92e, 0x92722c85] @
     [0xa2bfe8a1, 0xa81a664b, 0xc24b8b70, 0xc76c51a3, 0xd192e819, 0xd6990624, 0xf40e3585, 0x106aa070] @
     [0x19a4c116, 0x1e376c08, 0x2748774c, 0x34b0bcb5, 0x391c0cb3, 0x4ed8aa4a, 0x5b9cca4f, 0x682e6ff3] @
     [0x748f82ee, 0x78a5636f, 0x84c87814, 0x8cc70208, 0x90befffa, 0xa4506ceb, 0xbef9a3f7, 0xc67178f2]"

definition H256 :: sha_state where
  "H256 = (0x6a09e667, 0xbb67ae85, 0x3c6ef372, 0xa54ff53a,
           0x510e527f, 0x9b05688c, 0x1f83d9ab, 0x5be0cd19)"

definition rotr :: "nat \<Rightarrow> word32 \<Rightarrow> word32" where
  "rotr n x = (drop_bit n x) OR (push_bit (32 - n) x)"

definition Ch :: "word32 \<Rightarrow> word32 \<Rightarrow> word32 \<Rightarrow> word32" where
  "Ch x y z = (x AND y) XOR (NOT x AND z)"

definition Maj :: "word32 \<Rightarrow> word32 \<Rightarrow> word32 \<Rightarrow> word32" where
  "Maj x y z = (x AND y) XOR (x AND z) XOR (y AND z)"

definition Sigma0 :: "word32 \<Rightarrow> word32" where
  "Sigma0 x = rotr 2 x XOR rotr 13 x XOR rotr 22 x"

definition Sigma1 :: "word32 \<Rightarrow> word32" where
  "Sigma1 x = rotr 6 x XOR rotr 11 x XOR rotr 25 x"

definition sigma0 :: "word32 \<Rightarrow> word32" where
  "sigma0 x = rotr 7 x XOR rotr 18 x XOR drop_bit 3 x"

definition sigma1 :: "word32 \<Rightarrow> word32" where
  "sigma1 x = rotr 17 x XOR rotr 19 x XOR drop_bit 10 x"

text \<open>Padding: the bit 1, zeros up to 56 modulo 64 bytes, the length in bits on 8 bytes.\<close>

definition pad :: "8 word list \<Rightarrow> 8 word list" where
  "pad m = m @ [0x80] @ replicate ((119 - length m mod 64) mod 64) 0 @
     map (\<lambda>i. ucast (drop_bit (8 * (7 - i)) (of_nat (8 * length m) :: 64 word))) [0..<8]"

definition be_word :: "8 word list \<Rightarrow> word32" where
  "be_word bs = foldl (\<lambda>acc b. push_bit 8 acc OR ucast b) 0 bs"

text \<open>The sixteen words of a 64-byte block, and the 64-byte blocks of the padded message.\<close>

definition block_words :: "8 word list \<Rightarrow> word32 list" where
  "block_words b = map (\<lambda>i. be_word (take 4 (drop (4 * i) b))) [0..<16]"

fun blocks :: "8 word list \<Rightarrow> 8 word list list" where
  "blocks bs = (if bs = [] then [] else take 64 bs # blocks (drop 64 bs))"

text \<open>The message schedule: words 16 to 63 from the sixteen words of the block.\<close>

definition schedule :: "word32 list \<Rightarrow> word32 list" where
  "schedule w16 = foldl (\<lambda>w t. w @ [sigma1 (w ! (t - 2)) + w ! (t - 7) + sigma0 (w ! (t - 15)) + w ! (t - 16)])
     w16 [16..<64]"

definition sha_round :: "sha_state \<Rightarrow> word32 \<times> word32 \<Rightarrow> sha_state" where
  "sha_round st kw =
     (case st of (a, b, c, d, e, f, g, h) \<Rightarrow>
        let t1 = h + Sigma1 e + Ch e f g + fst kw + snd kw;
            t2 = Sigma0 a + Maj a b c
        in (t1 + t2, a, b, c, d + t1, e, f, g))"

definition add_state :: "sha_state \<Rightarrow> sha_state \<Rightarrow> sha_state" where
  "add_state st st' =
     (case st of (a, b, c, d, e, f, g, h) \<Rightarrow>
        case st' of (a', b', c', d', e', f', g', h') \<Rightarrow>
          (a + a', b + b', c + c', d + d', e + e', f + f', g + g', h + h'))"

definition compress :: "sha_state \<Rightarrow> 8 word list \<Rightarrow> sha_state" where
  "compress st b = add_state st (foldl sha_round st (zip K256 (schedule (block_words b))))"

definition sha256 :: "8 word list \<Rightarrow> sha_state" where
  "sha256 m = foldl compress H256 (blocks (pad m))"

definition hex_word :: "word32 \<Rightarrow> string" where
  "hex_word w = map (\<lambda>i. hex_char (unat (drop_bit (4 * (7 - i)) w AND 15))) [0..<8]"

definition hexdigest :: "sha_state \<Rightarrow> string" where
  "hexdigest st =
     (case st of (a, b, c, d, e, f, g, h) \<Rightarrow> concat (map hex_word [a, b, c, d, e, f, g, h]))"

text \<open>\<^verbatim>\<open>text.encode()\<close> for text below code point 128, which is all \<^verbatim>\<open>json.dumps\<close> writes.\<close>

definition encode :: "string \<Rightarrow> 8 word list" where
  "encode s = map (\<lambda>c. of_nat (of_char c)) s"

text \<open>
  The digest of experiment data, as \<^verbatim>\<open>StorePCRResultOnBlockchainTool.execute\<close> computes
  it (the spec's \<^verbatim>\<open>compute_hash\<close>):
  \<^verbatim>\<open>result_json = json.dumps(result_data, sort_keys=True)\<close>,
  \<^verbatim>\<open>result_hash = hashlib.sha256(result_json.encode()).hexdigest()\<close>.
\<close>

definition compute_hash :: "json \<Rightarrow> string" where
  "compute_hash result_data =
     (let result_json = dumps result_data
      in hexdigest (sha256 (encode result_json)))"

text \<open>
  Two values hold the same data when they agree up to the order of the items of their
  dictionaries, at every depth: what Python's \<^verbatim>\<open>==\<close> says of dictionaries whose
  items have the same types. The keys of a dictionary are distinct.
\<close>

fun same_data :: "json \<Rightarrow> json \<Rightarrow> bool" where
  "same_data (JList xs) (JList ys) = list_all2 same_data xs ys"
| "same_data (JDict kvs) (JDict kvs') =
     (distinct (map fst kvs) \<and> distinct (map fst kvs') \<and>
      set (map fst kvs) = set (map fst kvs') \<and>
      (\<forall>(k, v) \<in> set kvs. \<forall>(k', v') \<in> set kvs'. k = k' \<longrightarrow> same_data v v'))"
| "same_data a b = (a = b)"

section \<open>NeoXBlockchainService\<close>

text \<open>
  The transaction \<^verbatim>\<open>store_experiment_hash\<close> builds. The source's dictionary keys are
  \<^verbatim>\<open>from\<close>, \<^verbatim>\<open>to\<close>, \<^verbatim>\<open>value\<close>, \<^verbatim>\<open>gas\<close>, \<^verbatim>\<open>gasPrice\<close>, \<^verbatim>\<open>nonce\<close>,
  \<^verbatim>\<open>data\<close> and \<^verbatim>\<open>chainId\<close>. The field \<open>tx_data\<close> holds the JSON object itself;
  its encoding as hexadecimal text (\<^verbatim>\<open>Web3.to_hex(text=json.dumps(...))\<close>) is left out.
\<close>

record transaction =
  tx_from :: string
  tx_to :: string
  tx_value :: nat
  tx_gas :: nat
  tx_gasPrice :: nat
  tx_nonce :: nat
  tx_data :: json
  tx_chainId :: nat

text \<open>
  The service with the node behind it, as far as the code reads and writes it:
  what \<^verbatim>\<open>is_connected()\<close>, \<^verbatim>\<open>w3.eth.gas_price\<close> and
  \<^verbatim>\<open>w3.eth.get_transaction_count(address)\<close> return, the hash
  \<^verbatim>\<open>send_raw_transaction\<close> returns for a signed transaction, and the transactions
  the node has accepted, by hash. The node raises the transaction count when it
  includes a transaction in a block, which is no step of the code.
\<close>

record blockchain =
  is_connected :: bool
  address :: string
  chain_id :: nat
  gas_price :: nat
  transaction_count :: nat
  tx_hash_of :: "transaction \<Rightarrow> string"
  transactions :: "string \<rightharpoonup> transaction"

definition send_raw_transaction :: "blockchain \<Rightarrow> transaction \<Rightarrow> string \<times> blockchain" where
  "send_raw_transaction w tx =
     (let tx_hash = tx_hash_of w tx
      in (tx_hash, w\<lparr>transactions := (transactions w)(tx_hash \<mapsto> tx)\<rparr>))"

text \<open>
  \<^verbatim>\<open>NeoXBlockchainService.store_experiment_hash(experiment_id, data_hash, metadata)\<close>;
  \<open>utcnow\<close> is what \<^verbatim>\<open>datetime.utcnow().isoformat()\<close> returns at the call.
\<close>

definition store_experiment_hash ::
    "blockchain \<Rightarrow> string \<Rightarrow> string \<Rightarrow> string \<Rightarrow> json \<Rightarrow> string \<times> blockchain" where
  "store_experiment_hash w utcnow experiment_id data_hash metadata =
     (let data = JDict [(''id'', JStr experiment_id),
                        (''hash'', JStr data_hash),
                        (''metadata'', metadata),
                        (''timestamp'', JStr utcnow)];
          tx = \<lparr>tx_from = address w, tx_to = address w, tx_value = 0, tx_gas = 21000,
                 tx_gasPrice = gas_price w, tx_nonce = transaction_count w,
                 tx_data = data, tx_chainId = chain_id w\<rparr>
      in send_raw_transaction w tx)"

text \<open>
  Store calls on one account, and the node. The body of
  \<^verbatim>\<open>store_experiment_hash\<close> has no \<^verbatim>\<open>await\<close> and takes no lock: a call runs from
  its first line to its last, and concurrent calls take place one after the other, in
  some order. The node is the other party. Of its behaviour only this is used: the
  count that \<^verbatim>\<open>get_transaction_count\<close> returns changes when the node includes a
  transaction of the account in a block, and then goes up by one. A history is a list of
  these two events.
\<close>

datatype event = StoreCall string string string json | NodeCounts

fun is_store :: "event \<Rightarrow> bool" where
  "is_store (StoreCall utcnow experiment_id data_hash metadata) = True"
| "is_store NodeCounts = False"

definition node_counts :: "blockchain \<Rightarrow> blockchain" where
  "node_counts w = w\<lparr>transaction_count := transaction_count w + 1\<rparr>"

text \<open>
  The sequence numbers (the field \<^verbatim>\<open>nonce\<close>) of the transactions that the store calls
  of a history submit, in the order of the calls: each is read from the transaction that
  the node holds under the hash that the call returns.
\<close>

fun sequence_numbers :: "blockchain \<Rightarrow> event list \<Rightarrow> nat list" where
  "sequence_numbers w [] = []"
| "sequence_numbers w (NodeCounts # events) = sequence_numbers (node_counts w) events"
| "sequence_numbers w (StoreCall utcnow experiment_id data_hash metadata # events) =
     (let (tx_hash, w') = store_experiment_hash w utcnow experiment_id data_hash metadata
      in case transactions w' tx_hash of
           Some tx \<Rightarrow> tx_nonce tx # sequence_numbers w' events
         | None \<Rightarrow> sequence_numbers w' events)"

text \<open>
  The count of the node at each store call of a history that starts at the count \<open>c\<close>.
\<close>

fun count_at_calls :: "nat \<Rightarrow> event list \<Rightarrow> nat list" where
  "count_at_calls c [] = []"
| "count_at_calls c (NodeCounts # events) = count_at_calls (c + 1) events"
| "count_at_calls c (StoreCall utcnow experiment_id data_hash metadata # events) =
     c # count_at_calls c events"

text \<open>
  A history in which the node counts between every two store calls: \<open>fresh\<close> says that
  no store call has taken place since the node last counted.
\<close>

fun counted_between :: "bool \<Rightarrow> event list \<Rightarrow> bool" where
  "counted_between fresh [] = True"
| "counted_between fresh (NodeCounts # events) = counted_between True events"
| "counted_between fresh (StoreCall utcnow experiment_id data_hash metadata # events) =
     (fresh \<and> counted_between False events)"

section \<open>StorePCRResultOnBlockchainTool\<close>

definition result_data :: "string \<Rightarrow> string \<Rightarrow> string \<Rightarrow> json \<Rightarrow> string \<Rightarrow> string \<Rightarrow> json" where
  "result_data sample_id sequence species confidence gene_region utcnow =
     JDict [(''sample_id'', JStr sample_id),
            (''sequence'', JStr sequence),
            (''species'', JStr species),
            (''confidence'', confidence),
            (''gene_region'', JStr gene_region),
            (''timestamp'', JStr utcnow),
            (''analysis_method'', JStr ''PCR + DNA Barcoding'')]"

text \<open>
  \<^verbatim>\<open>StorePCRResultOnBlockchainTool.execute\<close>. It returns a dictionary and never raises
  by itself; the second component is the service after the call. \<open>utcnow\<close> and
  \<open>utcnow'\<close> are the two readings of the clock, by the tool and by the service. The
  check mark that opens the message is written as its three UTF-8 bytes.
\<close>

definition store_pcr_result_on_blockchain ::
    "blockchain \<Rightarrow> string \<Rightarrow> string \<Rightarrow> string \<Rightarrow> string \<Rightarrow> string \<Rightarrow> json \<Rightarrow> string
      \<Rightarrow> (string \<times> json) list \<times> blockchain" where
  "store_pcr_result_on_blockchain w utcnow utcnow' sample_id sequence species confidence gene_region =
     (let result_hash = compute_hash (result_data sample_id sequence species confidence gene_region utcnow)
      in if \<not> is_connected w then
           ([(''error'', JStr ''Blockchain not connected''),
             (''result_hash'', JStr result_hash),
             (''note'', JStr ''Hash calculated but not stored on blockchain. Check network connection.'')],
            w)
         else
           let (tx_hash, w') = store_experiment_hash w utcnow' sample_id result_hash
                 (JDict [(''type'', JStr ''pcr_fish_identification''),
                         (''species'', JStr species),
                         (''gene_region'', JStr gene_region),
                         (''confidence'', confidence)])
           in if tx_hash = [] then
                ([(''error'', JStr ''Transaction failed''),
                  (''result_hash'', JStr result_hash),
                  (''note'', JStr ''Check GAS balance and network status'')],
                 w')
              else
                let explorer_url = ''https://xt4scan.ngd.network/tx/'' @ tx_hash
                in ([(''success'', JBool True),
                     (''sample_id'', JStr sample_id),
                     (''species'', JStr species),
                     (''result_hash'', JStr result_hash),
                     (''transaction_hash'', JStr tx_hash),
                     (''blockchain_explorer'', JStr explorer_url),
                     (''network'', JStr ''Neo X Testnet''),
                     (''chain_id'', JInt 12227332),
                     (''timestamp'', JStr utcnow),
                     (''message'', JStr (
                        [CHR 0xE2, CHR 0x9C, CHR 0x85] @ '' PCR result for '' @ species @
                        '' stored on blockchain!'' @ [CHR 0x0A, CHR 0x0A] @
                        ''Transaction: '' @ take 20 tx_hash @ ''...'' @
                        drop (length tx_hash - 8) tx_hash @ [CHR 0x0A] @
                        ''View on Explorer: '' @ explorer_url @ [CHR 0x0A, CHR 0x0A] @
                        ''This result can now be verified at any time using the '' @
                        ''transaction hash to detect tampering.''))],
                    w'))"

section \<open>Verification of stored data\<close>

text \<open>
  Modelled from the spec: the code of \<^verbatim>\<open>VerifyExperimentIntegrityTool\<close> is not in
  the sources (the README gives its parameters and its two answers). The spec:
  \<^verbatim>\<open>verify(current_data, tx_id)\<close> fetches the original transaction payload by
  \<^verbatim>\<open>tx_id\<close>, recomputes the digest of \<^verbatim>\<open>current_data\<close>, and compares it
  byte for byte against the stored digest; any fetch failure is surfaced as
  \<^verbatim>\<open>VerificationUnavailable\<close>, distinct from \<^verbatim>\<open>MISMATCH\<close>.
\<close>

datatype verdict = MATCH | MISMATCH | VerificationUnavailable

definition stored_digest :: "json \<Rightarrow> string option" where
  "stored_digest payload =
     (case payload of
        JDict items \<Rightarrow> (case map_of items ''hash'' of Some (JStr h) \<Rightarrow> Some h | _ \<Rightarrow> None)
      | _ \<Rightarrow> None)"

definition verify :: "blockchain \<Rightarrow> json \<Rightarrow> string \<Rightarrow> verdict" where
  "verify w current_data tx_id =
     (if \<not> is_connected w then VerificationUnavailable
      else case transactions w tx_id of
        None \<Rightarrow> VerificationUnavailable
      | Some tx \<Rightarrow>
          (case stored_digest (tx_data tx) of
             None \<Rightarrow> VerificationUnavailable
           | Some digest \<Rightarrow> if compute_hash current_data = digest then MATCH else MISMATCH))"

section \<open>Agent runtime: the tool-call loop\<close>

text \<open>
  Modelled from the spec: the loop itself is not in the sources (the agents of the
  repository call \<^verbatim>\<open>self.run(message)\<close> of the agent framework they inherit from).
  The spec gives the state machine
  \<^verbatim>\<open>Idle -> Reasoning -> (ToolSelected -> ToolExecuting -> Reasoning)* -> Responding -> Done\<close>:
  the reasoning engine answers with a final answer or a tool call request; a request
  for a tool outside the agent's allowed set ends the turn with \<^verbatim>\<open>ToolNotAllowed\<close>;
  malformed parameters give the engine a \<^verbatim>\<open>ToolResult.Error\<close> of kind
  \<^verbatim>\<open>InvalidToolInput\<close>; every tool result is appended to the reasoning context;
  a hard maximum of iterations (tool calls per turn) is enforced, and exceeding it forces
  \<^verbatim>\<open>Responding\<close> with a best-effort partial answer and the flag
  \<^verbatim>\<open>MaxIterationsExceeded\<close>.

  The reasoning engine and the tools are external: the engine is any function of the
  reasoning context, and a tool's result may depend on the whole context, so that every
  sequence of tool responses is covered.
\<close>

datatype phase = Idle | Reasoning | ToolSelected | ToolExecuting | Responding | Done

datatype error_kind = ToolNotAllowed | InvalidToolInput | ToolExecutionError | MaxIterationsExceeded

datatype tool_result = Ok json | Error error_kind string

datatype decision = FinalAnswer string | ToolCallRequest string json

datatype entry = UserText string | ToolCalled string json tool_result

record tool_descriptor =
  accepts :: "json \<Rightarrow> bool"
  run_tool :: "entry list \<Rightarrow> json \<Rightarrow> tool_result"

record agent =
  allowed_tools :: "string set"
  registry :: "string \<rightharpoonup> tool_descriptor"
  max_iterations :: nat
  reason :: "entry list \<Rightarrow> decision"
  partial_answer :: "entry list \<Rightarrow> string"
  apology :: "string \<Rightarrow> string"

record loop_state =
  phase :: phase
  reasoning_context :: "entry list"
  iterations :: nat
  selected :: "(string \<times> json) option"
  reply :: string
  flag :: "error_kind option"

definition initial :: "string \<Rightarrow> loop_state" where
  "initial user_text =
     \<lparr>phase = Idle, reasoning_context = [UserText user_text], iterations = 0,
      selected = None, reply = [], flag = None\<rparr>"

text \<open>One transition of the state machine. An iteration is counted when a tool is selected.\<close>

definition step :: "agent \<Rightarrow> loop_state \<Rightarrow> loop_state" where
  "step a s =
     (case phase s of
        Idle \<Rightarrow> s\<lparr>phase := Reasoning\<rparr>
      | Reasoning \<Rightarrow>
          (case reason a (reasoning_context s) of
             FinalAnswer text \<Rightarrow> s\<lparr>phase := Responding, reply := text\<rparr>
           | ToolCallRequest name params \<Rightarrow>
               if name \<notin> allowed_tools a then
                 s\<lparr>phase := Responding, reply := apology a name, flag := Some ToolNotAllowed\<rparr>
               else if max_iterations a \<le> iterations s then
                 s\<lparr>phase := Responding, reply := partial_answer a (reasoning_context s),
                   flag := Some MaxIterationsExceeded\<rparr>
               else
                 s\<lparr>phase := ToolSelected, selected := Some (name, params),
                   iterations := iterations s + 1\<rparr>)
      | ToolSelected \<Rightarrow>
          (case selected s of
             None \<Rightarrow> s\<lparr>phase := Reasoning\<rparr>
           | Some (name, params) \<Rightarrow>
               (case registry a name of
                  None \<Rightarrow>
                    s\<lparr>phase := Reasoning, selected := None,
                      reasoning_context := reasoning_context s @
                        [ToolCalled name params (Error ToolExecutionError ''unknown tool'')]\<rparr>
                | Some tool \<Rightarrow>
                    if accepts tool params then s\<lparr>phase := ToolExecuting\<rparr>
                    else
                      s\<lparr>phase := Reasoning, selected := None,
                        reasoning_context := reasoning_context s @
                          [ToolCalled name params (Error InvalidToolInput ''malformed parameters'')]\<rparr>))
      | ToolExecuting \<Rightarrow>
          (case selected s of
             None \<Rightarrow> s\<lparr>phase := Reasoning\<rparr>
           | Some (name, params) \<Rightarrow>
               (case registry a name of
                  None \<Rightarrow>
                    s\<lparr>phase := Reasoning, selected := None,
                      reasoning_context := reasoning_context s @
                        [ToolCalled name params (Error ToolExecutionError ''unknown tool'')]\<rparr>
                | Some tool \<Rightarrow>
                    s\<lparr>phase := Reasoning, selected := None,
                      reasoning_context := reasoning_context s @
                        [ToolCalled name params (run_tool tool (reasoning_context s) params)]\<rparr>))
      | Responding \<Rightarrow> s\<lparr>phase := Done\<rparr>
      | Done \<Rightarrow> s)"

text \<open>
  The number of transitions a state is at most away from \<^verbatim>\<open>Done\<close>: three for every
  iteration that the bound still allows, and the way out.
\<close>

definition distance :: "agent \<Rightarrow> loop_state \<Rightarrow> nat" where
  "distance a s =
     (case phase s of
        Idle \<Rightarrow> 3 * max_iterations a + 4
      | Reasoning \<Rightarrow> 3 * (max_iterations a - iterations s) + 3
      | ToolSelected \<Rightarrow> 3 * (max_iterations a - iterations s) + 5
      | ToolExecuting \<Rightarrow> 3 * (max_iterations a - iterations s) + 4
      | Responding \<Rightarrow> 1
      | Done \<Rightarrow> 0)"

text \<open>
  The states of a turn whose engine never gives a final answer: the loop is still
  running within the bound, or it has stopped at the bound with the flag and the
  partial answer.
\<close>

definition bounded_out :: "agent \<Rightarrow> loop_state \<Rightarrow> bool" where
  "bounded_out a s =
     (iterations s \<le> max_iterations a \<and>
      (phase s = Responding \<or> phase s = Done \<longrightarrow>
         flag s = Some MaxIterationsExceeded \<and> iterations s = max_iterations a \<and>
         reply s = partial_answer a (reasoning_context s)))"

lemma step_Idle: "phase s = Idle \<Longrightarrow> step a s = s\<lparr>phase := Reasoning\<rparr>"
  by (simp add: step_def)

lemma step_Responding: "phase s = Responding \<Longrightarrow> step a s = s\<lparr>phase := Done\<rparr>"
  by (simp add: step_def)

lemma step_Done: "phase s = Done \<Longrightarrow> step a s = s"
  by (simp add: step_def)

lemma step_Reasoning:
  "phase s = Reasoning \<Longrightarrow>
     phase (step a s) = Responding \<and> iterations (step a s) = iterations s \<or>
     phase (step a s) = ToolSelected \<and> iterations (step a s) = iterations s + 1 \<and>
       iterations s < max_iterations a"
  by (simp add: step_def split: decision.split)

lemma step_ToolSelected:
  "phase s = ToolSelected \<Longrightarrow>
     (phase (step a s) = Reasoning \<or> phase (step a s) = ToolExecuting) \<and>
     iterations (step a s) = iterations s"
  by (simp add: step_def split: option.split prod.split)

lemma step_ToolExecuting:
  "phase s = ToolExecuting \<Longrightarrow>
     phase (step a s) = Reasoning \<and> iterations (step a s) = iterations s"
  by (simp add: step_def split: option.split prod.split)

text \<open>Every transition from a state other than \<^verbatim>\<open>Done\<close> brings the loop closer to it.\<close>

lemma step_distance: "phase s \<noteq> Done \<Longrightarrow> distance a (step a s) < distance a s"
proof (cases "phase s")
  case Idle
  then show ?thesis by (simp add: step_Idle distance_def)
next
  case Reasoning
  from step_Reasoning [OF this, of a] show ?thesis
    using Reasoning by (auto simp: distance_def)
next
  case ToolSelected
  from step_ToolSelected [OF this, of a] show ?thesis
    using ToolSelected by (auto simp: distance_def)
next
  case ToolExecuting
  from step_ToolExecuting [OF this, of a] show ?thesis
    using ToolExecuting by (auto simp: distance_def)
next
  case Responding
  then show ?thesis by (simp add: step_Responding distance_def)
next
  case Done
  assume "phase s \<noteq> Done"
  with Done show ?thesis by simp
qed

text \<open>The loop: transitions until \<^verbatim>\<open>Done\<close>. It terminates for every agent and state.\<close>

function run :: "agent \<Rightarrow> loop_state \<Rightarrow> loop_state" where
  "run a s = (if phase s = Done then s else run a (step a s))"
  by pat_completeness auto
termination
  by (relation "measure (\<lambda>(a, s). distance a s)") (auto simp: step_distance)

declare run.simps [simp del]

section \<open>Properties of IdentifyFishSpeciesTool\<close>

lemma starts_with_iff: "starts_with p s \<longleftrightarrow> (\<exists>ys. s = p @ ys)"
  by (induction p s rule: starts_with.induct) auto

lemma contains_iff: "contains p s \<longleftrightarrow> (\<exists>xs ys. s = xs @ p @ ys)"
proof (induction s)
  case Nil
  then show ?case by simp
next
  case (Cons c cs)
  show ?case
  proof
    assume "contains p (c # cs)"
    then consider "starts_with p (c # cs)" | "contains p cs" by auto
    then show "\<exists>xs ys. c # cs = xs @ p @ ys"
    proof cases
      case 1
      then obtain ys where "c # cs = p @ ys" by (auto simp: starts_with_iff)
      then have "c # cs = [] @ p @ ys" by simp
      then show ?thesis by blast
    next
      case 2
      with Cons obtain xs ys where "cs = xs @ p @ ys" by blast
      then have "c # cs = (c # xs) @ p @ ys" by simp
      then show ?thesis by blast
    qed
  next
    assume "\<exists>xs ys. c # cs = xs @ p @ ys"
    then obtain xs ys where eq: "c # cs = xs @ p @ ys" by blast
    show "contains p (c # cs)"
    proof (cases xs)
      case Nil
      with eq have "starts_with p (c # cs)" by (auto simp: starts_with_iff)
      then show ?thesis by simp
    next
      case (Cons x xs')
      with eq have "cs = xs' @ p @ ys" by simp
      with Cons.IH have "contains p cs" by blast
      then show ?thesis by simp
    qed
  qed
qed

text \<open>What the loop leaves for the fixed reference table: the highest confidence wins.\<close>

lemma find_best_reference_db:
  "find_best reference_db s (None, 0) =
     Inr (if contains (code_points ''ACTGGTCA'') s then (Some (snd (reference_db ! 0)), 98 / 100)
          else if contains (code_points ''GCTATGCC'') s then (Some (snd (reference_db ! 2)), 97 / 100)
          else if contains (code_points ''TGACCTGA'') s then (Some (snd (reference_db ! 1)), 95 / 100)
          else (None, 0))"
  by (simp add: reference_db_def and_then_def getitem_def)

text \<open>
  Claim C10. \<^verbatim>\<open>IdentifyFishSpeciesTool.execute\<close> is total: for every input sequence
  (and gene region) it returns a result dictionary, never \<^verbatim>\<open>KeyError\<close> or
  \<^verbatim>\<open>TypeError\<close>; and when no pattern of the reference table occurs in the cleaned
  sequence, the result is the dictionary with species \<^verbatim>\<open>"Unknown"\<close> and
  confidence \<^verbatim>\<open>0.0\<close>.
\<close>

theorem identify_fish_species_total:
  "(\<exists>result. identify_fish_species sequence gene_region = Inr result) \<and>
   ((\<forall>ref_pattern \<in> fst ` set reference_db.
        \<not> contains (code_points ref_pattern) (clean_seq sequence)) \<longrightarrow>
      identify_fish_species sequence gene_region = Inr unknown_species \<and>
      getitem unknown_species ''species'' = Inr (PStr ''Unknown'') \<and>
      getitem unknown_species ''confidence'' = Inr (PFloat 0))"
proof (intro conjI impI)
  show "\<exists>result. identify_fish_species sequence gene_region = Inr result"
    unfolding identify_fish_species_def find_best_reference_db
    by (simp add: reference_db_def and_then_def getitem_def)
next
  assume "\<forall>ref_pattern \<in> fst ` set reference_db.
      \<not> contains (code_points ref_pattern) (clean_seq sequence)"
  then have "find_best reference_db (clean_seq sequence) (None, 0) = Inr (None, 0)"
    unfolding find_best_reference_db by (simp add: reference_db_def)
  then show "identify_fish_species sequence gene_region = Inr unknown_species"
    by (simp add: identify_fish_species_def and_then_def)
next
  show "getitem unknown_species ''species'' = Inr (PStr ''Unknown'')"
    by (simp add: getitem_def unknown_species_def)
next
  show "getitem unknown_species ''confidence'' = Inr (PFloat 0)"
    by (simp add: getitem_def unknown_species_def)
qed

text \<open>
  The theorem at two sequences that match nothing: lower-case text with a blank, and the
  empty string.
\<close>

theorem identify_fish_species_total_witness:
  "identify_fish_species ''aaaa tttt'' ''COI'' = Inr unknown_species \<and>
   identify_fish_species '''' ''COI'' = Inr unknown_species"
proof -
  have a: "\<forall>ref_pattern \<in> fst ` set reference_db.
      \<not> contains (code_points ref_pattern) (clean_seq ''aaaa tttt'')"
    by (simp add: reference_db_def clean_seq_def upper_def upper_char_def isspace_def code_points_def)
  have b: "\<forall>ref_pattern \<in> fst ` set reference_db.
      \<not> contains (code_points ref_pattern) (clean_seq '''')"
    by (simp add: reference_db_def clean_seq_def upper_def code_points_def)
  show ?thesis
    using identify_fish_species_total [of "''aaaa tttt''" "''COI''"]
      identify_fish_species_total [of "''''" "''COI''"] a b by blast
qed

section \<open>Properties of the intent router\<close>

text \<open>
  What the matcher computes for a keyword between word boundaries, the shape of
  \<^verbatim>\<open>\bpcr\b\<close>: the keyword occurs at a position with a boundary before it and a
  boundary after it.
\<close>

lemma ends_lit:
  "ends (lit w) s i = (if starts_with w (drop i s) then [i + length w] else [])"
proof (induction w arbitrary: i)
  case Nil
  then show ?case by (simp add: lit_def)
next
  case (Cons c w)
  have l: "lit (c # w) = Seq (Lit c) (lit w)" by (simp add: lit_def)
  show ?case
  proof (cases "i < length s")
    case True
    then have d: "drop i s = s ! i # drop (Suc i) s" by (simp add: Cons_nth_drop_Suc)
    show ?thesis using True Cons.IH [of "Suc i"] by (simp add: l d)
  next
    case False
    then show ?thesis by (simp add: l)
  qed
qed

lemma ends_word:
  "ends (Seq WordB (Seq (lit w) WordB)) s i \<noteq> [] \<longleftrightarrow>
     at_boundary s i \<and> starts_with w (drop i s) \<and> at_boundary s (i + length w)"
  by (cases "at_boundary s i"; cases "starts_with w (drop i s)";
      cases "at_boundary s (i + length w)") (simp_all add: ends_lit)

lemma search_iff: "search r s \<longleftrightarrow> (\<exists>i \<le> length s. ends r s i \<noteq> [])"
proof -
  have "(\<exists>i \<in> set [0..<Suc (length s)]. P i) \<longleftrightarrow> (\<exists>i \<le> length s. P i)" for P
  proof
    assume "\<exists>i \<in> set [0..<Suc (length s)]. P i"
    then obtain i where "i \<in> set [0..<Suc (length s)]" "P i" by blast
    then have "i \<le> length s \<and> P i" by (simp del: upt_Suc)
    then show "\<exists>i \<le> length s. P i" by blast
  next
    assume "\<exists>i \<le> length s. P i"
    then obtain i where "i \<le> length s" "P i" by blast
    then have "i \<in> set [0..<Suc (length s)]" by (simp del: upt_Suc)
    with \<open>P i\<close> show "\<exists>i \<in> set [0..<Suc (length s)]. P i" by blast
  qed
  then show ?thesis unfolding search_def list_ex_iff .
qed

lemma search_word:
  "search (Seq WordB (Seq (lit w) WordB)) s \<longleftrightarrow>
     (\<exists>i \<le> length s. at_boundary s i \<and> starts_with w (drop i s) \<and> at_boundary s (i + length w))"
  by (simp only: search_iff ends_word)

lemma first_match_none:
  "(\<forall>r \<in> set rules. \<not> fst r m) \<Longrightarrow> first_match rules d m = d"
  by (induction rules) auto

lemma first_match_range:
  "first_match rules d m \<in> insert d (snd ` set rules)"
proof (induction rules)
  case Nil
  then show ?case by simp
next
  case (Cons r rules)
  obtain p t where r: "r = (p, t)" by (cases r)
  show ?case
  proof (cases "p m")
    case True
    with r show ?thesis by simp
  next
    case False
    with r Cons.IH show ?thesis by auto
  qed
qed

lemma first_match_index:
  "k < length rules \<Longrightarrow> fst (rules ! k) m \<Longrightarrow> (\<forall>j<k. \<not> fst (rules ! j) m)
     \<Longrightarrow> first_match rules d m = snd (rules ! k)"
proof (induction rules arbitrary: k)
  case Nil
  then show ?case by simp
next
  case (Cons r rules)
  obtain p t where r: "r = (p, t)" by (cases r)
  show ?case
  proof (cases k)
    case 0
    with Cons.prems r show ?thesis by simp
  next
    case (Suc k')
    from Cons.prems(3) Suc have "\<not> fst ((r # rules) ! 0) m" by blast
    then have np: "\<not> p m" using r by simp
    from Cons.prems Suc have "k' < length rules" "fst (rules ! k') m" by simp_all
    moreover have "\<forall>j<k'. \<not> fst (rules ! j) m"
    proof (intro allI impI)
      fix j assume "j < k'"
      then have "Suc j < k" using Suc by simp
      with Cons.prems(3) have "\<not> fst ((r # rules) ! Suc j) m" by blast
      then show "\<not> fst (rules ! j) m" by simp
    qed
    ultimately have "first_match rules d m = snd (rules ! k')" by (rule Cons.IH)
    with np r Suc show ?thesis by simp
  qed
qed

lemma route_declared:
  "route rest d m = first_match (declared_rules rest) d m"
  by (simp add: route_def classify_intent_def declared_rules_def pcr_rule_def experiment_rule_def)

lemma classify_intent_rules:
  "classify_intent m =
     (if fst pcr_rule m then Some (snd pcr_rule)
      else if fst experiment_rule m then Some (snd experiment_rule)
      else None)"
  by (simp add: classify_intent_def pcr_rule_def experiment_rule_def)

lemma rounds_nonempty: "rounds f n front \<noteq> [] \<Longrightarrow> \<exists>j. f j \<noteq> []"
proof (induction n arbitrary: front)
  case 0
  then show ?case by simp
next
  case (Suc n)
  show ?case
  proof (cases "concat (map f front) = []")
    case True
    with Suc.prems have "rounds f n [] \<noteq> []" by (simp add: Let_def)
    then show ?thesis by (rule Suc.IH)
  next
    case False
    then show ?thesis by auto
  qed
qed

lemma required_sound:
  "required r = Some cs \<Longrightarrow> ends r s i \<noteq> [] \<Longrightarrow> \<exists>c \<in> set cs. c \<in> set s"
proof (induction r arbitrary: cs i)
  case (Lit c)
  then show ?case by (auto split: if_splits)
next
  case (Seq a b)
  from Seq.prems(2) obtain j where j: "j \<in> set (ends a s i)" "ends b s j \<noteq> []" by auto
  then have a: "ends a s i \<noteq> []" by auto
  show ?case
  proof (cases "required a")
    case None
    with Seq.prems(1) have "required b = Some cs" by simp
    then show ?thesis using j(2) by (rule Seq.IH(2))
  next
    case (Some xs)
    with Seq.prems(1) have "required a = Some cs" by simp
    then show ?thesis using a by (rule Seq.IH(1))
  qed
next
  case (Alt a b)
  from Alt.prems(1) obtain xs ys where r: "required a = Some xs" "required b = Some ys" "cs = xs @ ys"
    by (auto split: option.splits)
  from Alt.prems(2) consider "ends a s i \<noteq> []" | "ends b s i \<noteq> []" by auto
  then show ?case
  proof cases
    case 1
    with r(1) have "\<exists>c \<in> set xs. c \<in> set s" by (rule Alt.IH(1))
    with r(3) show ?thesis by auto
  next
    case 2
    with r(2) have "\<exists>c \<in> set ys. c \<in> set s" by (rule Alt.IH(2))
    with r(3) show ?thesis by auto
  qed
next
  case (Plus a)
  from Plus.prems(2) obtain j where "ends a s j \<noteq> []"
    using rounds_nonempty [of "ends a s" "Suc (length s)" "[i]"] by auto
  moreover from Plus.prems(1) have "required a = Some cs" by simp
  ultimately show ?case by (rule Plus.IH [rotated])
qed simp_all

lemma search_required:
  "required r = Some cs \<Longrightarrow> search r s \<Longrightarrow> \<exists>c \<in> set cs. c \<in> set s"
  by (auto simp: search_def list_ex_iff dest: required_sound)

lemma required_pcr: "required pcr_pattern = Some ''pfd''"
  by (simp add: pcr_pattern_def lit_def)

lemma required_experiment: "required experiment_pattern = Some ''ep''"
  by (simp add: experiment_pattern_def lit_def)

lemma no_lower_case_no_match:
  assumes "\<forall>c \<in> set m. \<not> (97 \<le> (of_char c :: nat) \<and> (of_char c :: nat) \<le> 122)"
  shows "\<not> search pcr_pattern m" "\<not> search experiment_pattern m"
proof -
  show "\<not> search pcr_pattern m"
  proof
    assume "search pcr_pattern m"
    with required_pcr obtain c where c: "c \<in> set ''pfd''" "c \<in> set m"
      by (blast dest: search_required)
    from c(1) have "97 \<le> (of_char c :: nat) \<and> (of_char c :: nat) \<le> 122" by auto
    with assms c(2) show False by blast
  qed
  show "\<not> search experiment_pattern m"
  proof
    assume "search experiment_pattern m"
    with required_experiment obtain c where c: "c \<in> set ''ep''" "c \<in> set m"
      by (blast dest: search_required)
    from c(1) have "97 \<le> (of_char c :: nat) \<and> (of_char c :: nat) \<le> 122" by auto
    with assms c(2) show False by blast
  qed
qed

text \<open>
  Both patterns of the source need a lower-case letter of the message: a message without
  the letters \<^verbatim>\<open>a\<close> to \<^verbatim>\<open>z\<close> passes both tests of \<^verbatim>\<open>classify_intent\<close>
  without a match, and \<^verbatim>\<open>classify_intent\<close> as shown returns \<^verbatim>\<open>None\<close> for it.
\<close>

theorem classify_intent_no_lower_case:
  "\<forall>c \<in> set message. \<not> (97 \<le> (of_char c :: nat) \<and> (of_char c :: nat) \<le> 122)
     \<Longrightarrow> classify_intent message = None"
  by (simp add: classify_intent_def no_lower_case_no_match)

text \<open>The theorem at a message in capital letters, with the same words in small letters.\<close>

theorem classify_intent_no_lower_case_witness:
  "classify_intent ''RUN A PCR EXPERIMENT'' = None \<and>
   classify_intent ''run a pcr experiment'' = Some (''pcr_fish_agent'', ''pcr_fish_operation'')"
proof -
  have "\<forall>c \<in> set ''RUN A PCR EXPERIMENT''. \<not> (97 \<le> (of_char c :: nat) \<and> (of_char c :: nat) \<le> 122)"
    by simp
  then have "classify_intent ''RUN A PCR EXPERIMENT'' = None"
    by (rule classify_intent_no_lower_case)
  moreover have "search pcr_pattern ''run a pcr experiment''" by code_simp
  ultimately show ?thesis by (simp add: classify_intent_def)
qed

text \<open>
  Claim C4, on the router of the spec. For every message, the empty string included,
  \<open>route\<close> returns a pair \<^verbatim>\<open>(agent, intent)\<close>: the target of one of the declared
  rules or the default target. When no rule matches, it returns the default target; the
  two rules of the source do not match the empty string, so the empty string falls to the
  default as soon as no later rule matches it.
\<close>

theorem route_total:
  "route rest default_target message
      \<in> insert default_target (snd ` set (declared_rules rest)) \<and>
   ((\<forall>r \<in> set (declared_rules rest). \<not> fst r message) \<longrightarrow>
      route rest default_target message = default_target) \<and>
   ((\<forall>r \<in> set rest. \<not> fst r '''') \<longrightarrow>
      route rest default_target '''' = default_target)"
proof (intro conjI impI)
  show "route rest default_target message
      \<in> insert default_target (snd ` set (declared_rules rest))"
    unfolding route_declared by (rule first_match_range)
next
  assume "\<forall>r \<in> set (declared_rules rest). \<not> fst r message"
  then show "route rest default_target message = default_target"
    unfolding route_declared by (rule first_match_none)
next
  assume rest: "\<forall>r \<in> set rest. \<not> fst r ''''"
  have "\<not> search pcr_pattern ''''" "\<not> search experiment_pattern ''''"
    by code_simp+
  with rest have "\<forall>r \<in> set (declared_rules rest). \<not> fst r ''''"
    by (simp add: declared_rules_def pcr_rule_def experiment_rule_def)
  then show "route rest default_target '''' = default_target"
    unfolding route_declared by (rule first_match_none)
qed

text \<open>
  The theorem with one later rule (the keyword \<^verbatim>\<open>blockchain\<close>) and the literature
  agent as default, at a message that matches nothing and at the empty string.
\<close>

theorem route_total_witness:
  "route [(contains ''blockchain'', (''blockchain_agent'', ''blockchain_operation''))]
      (''literature_agent'', ''general'') ''hello there'' = (''literature_agent'', ''general'') \<and>
   route [(contains ''blockchain'', (''blockchain_agent'', ''blockchain_operation''))]
      (''literature_agent'', ''general'') '''' = (''literature_agent'', ''general'')"
proof -
  let ?rest = "[(contains ''blockchain'', (''blockchain_agent'', ''blockchain_operation''))]"
  have "\<not> search pcr_pattern ''hello there''" "\<not> search experiment_pattern ''hello there''"
    "\<not> contains ''blockchain'' ''hello there''" "\<not> contains ''blockchain'' ''''"
    by code_simp+
  then have a: "\<forall>r \<in> set (declared_rules ?rest). \<not> fst r ''hello there''"
    and b: "\<forall>r \<in> set ?rest. \<not> fst r ''''"
    by (simp_all add: declared_rules_def pcr_rule_def experiment_rule_def)
  show ?thesis
    using route_total [of ?rest "(''literature_agent'', ''general'')" "''hello there''"] a b
    by blast
qed

text \<open>
  Claim C6. The rules are tried in declaration order and the first rule that matches
  decides: if rule \<open>k\<close> matches the message and no rule declared before it does, the
  result is the target of rule \<open>k\<close>, whatever the later rules match. For the two rules
  of the source this is the result of \<^verbatim>\<open>classify_intent\<close> itself; with the elided
  rules continued in their order it holds at every index.
\<close>

theorem classify_intent_first_rule_wins:
  "k < length (declared_rules rest) \<Longrightarrow>
   fst (declared_rules rest ! k) message \<Longrightarrow>
   (\<forall>j<k. \<not> fst (declared_rules rest ! j) message) \<Longrightarrow>
   (k < 2 \<longrightarrow> classify_intent message = Some (snd (declared_rules rest ! k))) \<and>
   route rest default_target message = snd (declared_rules rest ! k)"
proof
  assume k: "k < length (declared_rules rest)"
    and m: "fst (declared_rules rest ! k) message"
    and n: "\<forall>j<k. \<not> fst (declared_rules rest ! j) message"
  show "k < 2 \<longrightarrow> classify_intent message = Some (snd (declared_rules rest ! k))"
  proof
    assume "k < 2"
    then consider "k = 0" | "k = 1" by linarith
    then show "classify_intent message = Some (snd (declared_rules rest ! k))"
    proof cases
      case 1
      with m show ?thesis by (simp add: classify_intent_rules declared_rules_def)
    next
      case 2
      with n have "\<not> fst (declared_rules rest ! 0) message" by simp
      with m 2 show ?thesis by (simp add: classify_intent_rules declared_rules_def)
    qed
  qed
  from k m n show "route rest default_target message = snd (declared_rules rest ! k)"
    unfolding route_declared by (rule first_match_index)
qed

text \<open>
  The theorem at a message that matches the experiment rule and a later rule with a
  longer, more specific keyword: the experiment rule, declared first, decides.
\<close>

theorem classify_intent_first_rule_wins_witness:
  "classify_intent ''store my experiment on the blockchain''
    = Some (''experiment_agent'', ''experiment_operation'') \<and>
   route
      [(contains ''experiment on the blockchain'', (''blockchain_agent'', ''blockchain_operation''))]
      (''literature_agent'', ''general'') ''store my experiment on the blockchain''
    = (''experiment_agent'', ''experiment_operation'') \<and>
   contains ''experiment on the blockchain'' ''store my experiment on the blockchain''"
proof -
  let ?rest = "[(contains ''experiment on the blockchain'', (''blockchain_agent'', ''blockchain_operation''))]"
  let ?m = "''store my experiment on the blockchain''"
  have k: "Suc 0 < length (declared_rules ?rest)" by (simp add: declared_rules_def)
  have e: "search experiment_pattern ?m" by code_simp
  have p: "\<not> search pcr_pattern ?m" by code_simp
  have c: "contains ''experiment on the blockchain'' ?m" by code_simp
  from e have m: "fst (declared_rules ?rest ! Suc 0) ?m"
    by (simp add: declared_rules_def experiment_rule_def)
  from p have n: "\<forall>j<Suc 0. \<not> fst (declared_rules ?rest ! j) ?m"
    by (simp add: declared_rules_def pcr_rule_def)
  have "snd (declared_rules ?rest ! Suc 0) = (''experiment_agent'', ''experiment_operation'')"
    by (simp add: declared_rules_def experiment_rule_def)
  with classify_intent_first_rule_wins [OF k m n, of "(''literature_agent'', ''general'')"] c
  show ?thesis by simp
qed

text \<open>
  Claim C5 says that the result does not depend on letter case. The patterns are
  lower-case and \<^verbatim>\<open>re.search\<close> is called on the message as it is, without a flag.
  \<^verbatim>\<open>classify_intent\<close> sends \<^verbatim>\<open>pcr experiment\<close> to the PCR agent and the same words
  written \<^verbatim>\<open>PCR experiment\<close> to the experiment agent, and its PCR rule matches
  \<^verbatim>\<open>identify this fish dna sequence\<close> but not \<^verbatim>\<open>Identify this fish DNA sequence\<close>,
  the message that the write-up sends to the PCR agent.
\<close>

theorem classify_intent_case_counterexample:
  "lower ''PCR experiment'' = ''pcr experiment'' \<and>
   classify_intent ''pcr experiment'' = Some (''pcr_fish_agent'', ''pcr_fish_operation'') \<and>
   classify_intent ''PCR experiment'' = Some (''experiment_agent'', ''experiment_operation'') \<and>
   classify_intent ''PCR experiment'' \<noteq> classify_intent (lower ''PCR experiment'') \<and>
   lower ''Identify this fish DNA sequence'' = ''identify this fish dna sequence'' \<and>
   classify_intent ''identify this fish dna sequence'' = Some (''pcr_fish_agent'', ''pcr_fish_operation'') \<and>
   classify_intent ''Identify this fish DNA sequence'' = None"
proof -
  have l: "lower ''PCR experiment'' = ''pcr experiment''"
    "lower ''Identify this fish DNA sequence'' = ''identify this fish dna sequence''"
    by code_simp+
  have a: "search pcr_pattern ''pcr experiment''" by code_simp
  have b: "\<not> search pcr_pattern ''PCR experiment''" by code_simp
  have c: "search experiment_pattern ''PCR experiment''" by code_simp
  have d: "search pcr_pattern ''identify this fish dna sequence''" by code_simp
  have e: "\<not> search pcr_pattern ''Identify this fish DNA sequence''"
    "\<not> search experiment_pattern ''Identify this fish DNA sequence''" by code_simp+
  show ?thesis using a b c d e unfolding l by (simp add: classify_intent_def)
qed

section \<open>Properties of the canonical serialization and the digest\<close>

lemma filter_key_singleton:
  "distinct (map fst xs) \<Longrightarrow> x \<in> set xs \<Longrightarrow> filter (\<lambda>y. fst x = fst y) xs = [x]"
proof (induction xs)
  case Nil
  then show ?case by simp
next
  case (Cons a xs)
  show ?case
  proof (cases "x = a")
    case True
    with Cons.prems(1) have "\<forall>y \<in> set xs. fst x \<noteq> fst y" by auto
    then have "filter (\<lambda>y. fst x = fst y) xs = []" by (simp add: filter_empty_conv)
    with True show ?thesis by simp
  next
    case False
    with Cons.prems have "x \<in> set xs" "distinct (map fst xs)" by simp_all
    with Cons.IH have "filter (\<lambda>y. fst x = fst y) xs = [x]" by simp
    moreover have "fst x \<noteq> fst a"
    proof -
      from Cons.prems(1) have "fst a \<notin> set (map fst xs)" by simp
      moreover from \<open>x \<in> set xs\<close> have "fst x \<in> set (map fst xs)" by simp
      ultimately show ?thesis by metis
    qed
    ultimately show ?thesis by simp
  qed
qed

text \<open>Sorting by distinct keys forgets the order of the input.\<close>

lemma sort_key_order_free:
  assumes "distinct (map fst xs)" "distinct (map fst ys)" "set xs = set ys"
  shows "sort_key fst xs = sort_key fst ys"
proof (rule properties_for_sort_key)
  from assms have "distinct xs" "distinct ys" by (simp_all add: distinct_map)
  with assms(3) have "mset xs = mset ys" by (simp add: set_eq_iff_mset_eq_distinct)
  then show "mset (sort_key fst ys) = mset xs" by simp
next
  fix k assume "k \<in> set (sort_key fst ys)"
  then have k: "k \<in> set ys" "k \<in> set xs" using assms(3) by simp_all
  have "distinct (map fst (sort_key fst ys))"
    using assms(2) by (simp add: distinct_map)
  then have "filter (\<lambda>x. fst k = fst x) (sort_key fst ys) = [k]"
    using \<open>k \<in> set (sort_key fst ys)\<close> by (rule filter_key_singleton)
  moreover from assms(1) k(2) have "filter (\<lambda>x. fst k = fst x) xs = [k]"
    by (rule filter_key_singleton)
  ultimately show "filter (\<lambda>x. fst k = fst x) (sort_key fst ys) = filter (\<lambda>x. fst k = fst x) xs"
    by simp
next
  show "sorted (map fst (sort_key fst ys))" by simp
qed

lemma dict_text_order_free:
  assumes "distinct (map fst xs)" "distinct (map fst ys)" "set xs = set ys"
  shows "dict_text xs = dict_text ys"
  using sort_key_order_free [OF assms] by (simp add: dict_text_def)

lemma dumps_same_data: "same_data a b \<Longrightarrow> dumps a = dumps b"
proof (induction a b rule: same_data.induct)
  case (1 xs ys)
  from "1.prems" have "list_all2 same_data xs ys" by simp
  then have "list_all2 (\<lambda>x y. dumps x = dumps y) xs ys"
    by (rule list.rel_mono_strong) (rule "1.IH")
  then have "map dumps xs = map dumps ys"
    by (induction rule: list_all2_induct) simp_all
  then show ?case by simp
next
  case (2 kvs kvs')
  let ?f = "\<lambda>(k, v). (k, dumps v)"
  have all:
    "distinct (map fst kvs) \<and> distinct (map fst kvs') \<and> set (map fst kvs) = set (map fst kvs') \<and>
     (\<forall>(k, v) \<in> set kvs. \<forall>(k', v') \<in> set kvs'. k = k' \<longrightarrow> same_data v v')"
    using "2.prems" unfolding same_data.simps .
  from all have d: "distinct (map fst kvs)" and d': "distinct (map fst kvs')" by blast+
  from all have "set (map fst kvs) = set (map fst kvs')" by blast
  then have keys: "fst ` set kvs = fst ` set kvs'" by simp
  from all have pairs: "\<forall>(k, v) \<in> set kvs. \<forall>(k', v') \<in> set kvs'. k = k' \<longrightarrow> same_data v v'"
    by blast
  have vals: "same_data v v'" if "(k, v) \<in> set kvs" "(k, v') \<in> set kvs'" for k v v'
    using pairs that by fastforce
  have eq: "dumps v = dumps v'" if "(k, v) \<in> set kvs" "(k, v') \<in> set kvs'" for k v v'
    using "2.IH" [OF that(1) refl that(2) refl refl] vals [OF that] by simp
  have fst_f: "map fst (map ?f l) = map fst l" for l :: "(string \<times> json) list"
    by (induction l) auto
  have "set (map ?f kvs) = set (map ?f kvs')"
  proof (intro set_eqI iffI)
    fix p assume "p \<in> set (map ?f kvs)"
    then obtain k v where kv: "(k, v) \<in> set kvs" "p = (k, dumps v)" by auto
    from kv(1) keys have "k \<in> fst ` set kvs'" by force
    then obtain v' where kv': "(k, v') \<in> set kvs'" by auto
    with kv eq have "p = ?f (k, v')" by simp
    moreover from kv' have "?f (k, v') \<in> ?f ` set kvs'" by (rule imageI)
    ultimately show "p \<in> set (map ?f kvs')" by simp
  next
    fix p assume "p \<in> set (map ?f kvs')"
    then obtain k v' where kv': "(k, v') \<in> set kvs'" "p = (k, dumps v')" by auto
    from kv'(1) keys have "k \<in> fst ` set kvs" by force
    then obtain v where kv: "(k, v) \<in> set kvs" by auto
    with kv' eq have "p = ?f (k, v)" by simp
    moreover from kv have "?f (k, v) \<in> ?f ` set kvs" by (rule imageI)
    ultimately show "p \<in> set (map ?f kvs)" by simp
  qed
  moreover have "distinct (map fst (map ?f kvs))" "distinct (map fst (map ?f kvs'))"
    using d d' by (simp_all only: fst_f)
  ultimately have "dict_text (map ?f kvs) = dict_text (map ?f kvs')"
    by (intro dict_text_order_free)
  then show ?case by simp
qed simp_all

text \<open>
  Claim C1. The digest is a function of the canonical serialization of the data: data
  with the same serialization have the same digest, and data that hold the same keys
  and values have the same serialization, whatever the order of the fields was, so
  they hash identically. (As a function, the digest of the same data is the same at
  every call.)
\<close>

theorem compute_hash_canonical:
  "(dumps D = dumps D' \<longrightarrow> compute_hash D = compute_hash D') \<and>
   (same_data D D' \<longrightarrow> dumps D = dumps D' \<and> compute_hash D = compute_hash D')"
  by (simp add: compute_hash_def dumps_same_data)

text \<open>The theorem at the spec's example data, with its two fields in both orders.\<close>

theorem compute_hash_canonical_witness:
  "same_data (JDict [(''id'', JStr ''exp1''), (''value'', JInt 42)])
             (JDict [(''value'', JInt 42), (''id'', JStr ''exp1'')]) \<and>
   JDict [(''id'', JStr ''exp1''), (''value'', JInt 42)] \<noteq>
   JDict [(''value'', JInt 42), (''id'', JStr ''exp1'')] \<and>
   compute_hash (JDict [(''id'', JStr ''exp1''), (''value'', JInt 42)]) =
   compute_hash (JDict [(''value'', JInt 42), (''id'', JStr ''exp1'')])"
proof -
  have s: "same_data (JDict [(''id'', JStr ''exp1''), (''value'', JInt 42)])
                     (JDict [(''value'', JInt 42), (''id'', JStr ''exp1'')])"
    by auto
  show ?thesis
    using s compute_hash_canonical [of "JDict [(''id'', JStr ''exp1''), (''value'', JInt 42)]"
        "JDict [(''value'', JInt 42), (''id'', JStr ''exp1'')]"]
    by simp
qed

section \<open>Properties of the store tool and of verification\<close>

text \<open>
  Claim C3. When the service reports that it is not connected, the store tool fails:
  its result carries the error \<^verbatim>\<open>Blockchain not connected\<close> (the spec's
  \<^verbatim>\<open>LedgerUnavailable\<close>), no success mark and no transaction hash, and the
  service, with the transactions it holds, is left as it was.
\<close>

theorem store_not_connected:
  "\<not> is_connected w \<Longrightarrow>
     (let (result, w') =
        store_pcr_result_on_blockchain w utcnow utcnow' sample_id sequence species confidence gene_region
      in map_of result ''error'' = Some (JStr ''Blockchain not connected'') \<and>
         map_of result ''success'' = None \<and>
         map_of result ''transaction_hash'' = None \<and>
         w' = w)"
  by (simp add: store_pcr_result_on_blockchain_def Let_def)

text \<open>The theorem at a disconnected service that holds no transaction.\<close>

theorem store_not_connected_witness:
  "(let w = \<lparr>is_connected = False, address = ''0x96d04FC0261b23e808B19A1F4580EB727B2C151D'',
         chain_id = 12227332, gas_price = 40000000000, transaction_count = 0,
         tx_hash_of = (\<lambda>tx. ''0xa8c9d3e2''), transactions = Map.empty\<rparr>;
        (result, w') = store_pcr_result_on_blockchain w ''2025-12-07T10:15:27'' ''2025-12-07T10:15:28''
           ''Sample_FoodSafety_001'' ''ACTGGTCA'' ''Oncorhynchus mykiss'' (JFloat ''0.98'') ''COI''
    in map_of result ''error'' = Some (JStr ''Blockchain not connected'') \<and>
       map_of result ''transaction_hash'' = None \<and>
       transactions w' = Map.empty)"
proof -
  let ?w = "\<lparr>is_connected = False, address = ''0x96d04FC0261b23e808B19A1F4580EB727B2C151D'',
         chain_id = 12227332, gas_price = 40000000000, transaction_count = 0,
         tx_hash_of = (\<lambda>tx. ''0xa8c9d3e2''), transactions = Map.empty\<rparr>"
  have "\<not> is_connected ?w" by simp
  from store_not_connected [OF this, of "''2025-12-07T10:15:27''" "''2025-12-07T10:15:28''"
      "''Sample_FoodSafety_001''" "''ACTGGTCA''" "''Oncorhynchus mykiss''" "JFloat ''0.98''" "''COI''"]
  show ?thesis by (simp add: Let_def split: prod.splits)
qed

lemma store_success:
  assumes "store_pcr_result_on_blockchain w utcnow utcnow' sample_id sequence species confidence gene_region
             = (result, w')"
    and "map_of result ''transaction_hash'' = Some (JStr T)"
  shows "is_connected w' \<and>
         (\<exists>tx. transactions w' T = Some tx \<and>
            stored_digest (tx_data tx) =
              Some (compute_hash (result_data sample_id sequence species confidence gene_region utcnow)))"
proof (cases "is_connected w")
  case False
  with assms show ?thesis
    by (auto simp: store_pcr_result_on_blockchain_def Let_def)
next
  case True
  show ?thesis
  proof (cases "tx_hash_of w
      \<lparr>tx_from = address w, tx_to = address w, tx_value = 0, tx_gas = 21000,
       tx_gasPrice = gas_price w, tx_nonce = transaction_count w,
       tx_data = JDict [(''id'', JStr sample_id),
          (''hash'', JStr (compute_hash (result_data sample_id sequence species confidence gene_region utcnow))),
          (''metadata'', JDict [(''type'', JStr ''pcr_fish_identification''), (''species'', JStr species),
                               (''gene_region'', JStr gene_region), (''confidence'', confidence)]),
          (''timestamp'', JStr utcnow')],
       tx_chainId = chain_id w\<rparr> = []")
    case empty: True
    with True assms show ?thesis
      by (auto simp: store_pcr_result_on_blockchain_def store_experiment_hash_def
          send_raw_transaction_def Let_def)
  next
    case False
    with True assms show ?thesis
      by (auto simp: store_pcr_result_on_blockchain_def store_experiment_hash_def
          send_raw_transaction_def Let_def stored_digest_def)
  qed
qed

text \<open>
  A result of the store tool with a transaction hash means that the service was
  connected and that the node now holds, under that hash, a transaction whose payload
  carries the digest of the result data.
\<close>

theorem store_records_digest:
  assumes "store_pcr_result_on_blockchain w utcnow utcnow' sample_id sequence species confidence gene_region
             = (result, w')"
    and "map_of result ''transaction_hash'' = Some (JStr T)"
  shows "is_connected w' \<and>
         (\<exists>tx items. transactions w' T = Some tx \<and> tx_data tx = JDict items \<and>
            map_of items ''hash'' =
              Some (JStr (compute_hash (result_data sample_id sequence species confidence gene_region utcnow))))"
proof -
  from store_success [OF assms] obtain tx where c: "is_connected w'"
    and tx: "transactions w' T = Some tx"
    and d: "stored_digest (tx_data tx) =
       Some (compute_hash (result_data sample_id sequence species confidence gene_region utcnow))"
    by blast
  from d obtain items where "tx_data tx = JDict items"
    "map_of items ''hash'' =
       Some (JStr (compute_hash (result_data sample_id sequence species confidence gene_region utcnow)))"
    by (auto simp: stored_digest_def split: json.splits option.splits)
  with c tx show ?thesis by blast
qed

text \<open>
  The theorem at a connected service and the result of the demonstration.
\<close>

theorem store_records_digest_witness:
  "(let w = \<lparr>is_connected = True, address = ''0x96d04FC0261b23e808B19A1F4580EB727B2C151D'',
         chain_id = 12227332, gas_price = 40000000000, transaction_count = 0,
         tx_hash_of = (\<lambda>tx. ''0xa8c9d3e2''), transactions = Map.empty\<rparr>;
        (result, w') = store_pcr_result_on_blockchain w ''2025-12-07T10:15:27'' ''2025-12-07T10:15:28''
           ''Sample_FoodSafety_001'' ''ACTGGTCA'' ''Oncorhynchus mykiss'' (JFloat ''0.98'') ''COI''
    in map_of result ''transaction_hash'' = Some (JStr ''0xa8c9d3e2'') \<and>
       is_connected w' \<and>
       (\<exists>tx items. transactions w' ''0xa8c9d3e2'' = Some tx \<and> tx_data tx = JDict items \<and>
          map_of items ''hash'' =
            Some (JStr (compute_hash (result_data ''Sample_FoodSafety_001'' ''ACTGGTCA''
                    ''Oncorhynchus mykiss'' (JFloat ''0.98'') ''COI'' ''2025-12-07T10:15:27'')))))"
proof -
  let ?w = "\<lparr>is_connected = True, address = ''0x96d04FC0261b23e808B19A1F4580EB727B2C151D'',
         chain_id = 12227332, gas_price = 40000000000, transaction_count = 0,
         tx_hash_of = (\<lambda>tx. ''0xa8c9d3e2''), transactions = Map.empty\<rparr>"
  let ?r = "store_pcr_result_on_blockchain ?w ''2025-12-07T10:15:27'' ''2025-12-07T10:15:28''
           ''Sample_FoodSafety_001'' ''ACTGGTCA'' ''Oncorhynchus mykiss'' (JFloat ''0.98'') ''COI''"
  have st: "?r = (fst ?r, snd ?r)" by simp
  have tx: "map_of (fst ?r) ''transaction_hash'' = Some (JStr ''0xa8c9d3e2'')"
    by (simp add: store_pcr_result_on_blockchain_def store_experiment_hash_def
        send_raw_transaction_def Let_def)
  from store_records_digest [OF st tx] tx show ?thesis
    by (simp add: Let_def split_beta)
qed

lemma verify_stored:
  assumes "is_connected w" "transactions w T = Some tx" "stored_digest (tx_data tx) = Some h"
  shows "verify w D T = (if compute_hash D = h then MATCH else MISMATCH)"
  using assms by (simp add: verify_def)

text \<open>
  Verification, as the spec describes it, after a successful store: it compares the digest
  of the data at hand with the digest of the data that were stored, so the stored data
  verify as \<^verbatim>\<open>MATCH\<close>, and other data as \<^verbatim>\<open>MISMATCH\<close> when their digest
  differs.
\<close>

lemma verify_after_store_digest:
  assumes "store_pcr_result_on_blockchain w utcnow utcnow' sample_id sequence species confidence gene_region
             = (result, w')"
    and "map_of result ''transaction_hash'' = Some (JStr T)"
  shows "verify w' D T =
      (if compute_hash D = compute_hash (result_data sample_id sequence species confidence gene_region utcnow)
       then MATCH else MISMATCH)"
proof -
  from store_success [OF assms] obtain tx where
    "is_connected w'" "transactions w' T = Some tx"
    "stored_digest (tx_data tx) =
       Some (compute_hash (result_data sample_id sequence species confidence gene_region utcnow))"
    by blast
  then show ?thesis by (rule verify_stored)
qed

section \<open>Properties of the sequence numbers of store calls\<close>

lemma store_experiment_hash_nonce:
  "store_experiment_hash w utcnow experiment_id data_hash metadata = (tx_hash, w') \<Longrightarrow>
     transaction_count w' = transaction_count w \<and>
     (\<exists>tx. transactions w' tx_hash = Some tx \<and> tx_nonce tx = transaction_count w)"
  by (auto simp: store_experiment_hash_def send_raw_transaction_def Let_def)

text \<open>Every store call takes the count of the node at the time of the call.\<close>

lemma sequence_numbers_count:
  "sequence_numbers w events = count_at_calls (transaction_count w) events"
proof (induction events arbitrary: w)
  case Nil
  show ?case by simp
next
  case (Cons e events)
  show ?case
  proof (cases e)
    case NodeCounts
    then show ?thesis using Cons.IH [of "node_counts w"] by (simp add: node_counts_def)
  next
    case (StoreCall utcnow experiment_id data_hash metadata)
    obtain tx_hash w' where s: "store_experiment_hash w utcnow experiment_id data_hash metadata = (tx_hash, w')"
      by (cases "store_experiment_hash w utcnow experiment_id data_hash metadata")
    from store_experiment_hash_nonce [OF s] obtain tx where
      "transaction_count w' = transaction_count w" "transactions w' tx_hash = Some tx"
      "tx_nonce tx = transaction_count w" by blast
    then show ?thesis using StoreCall s Cons.IH [of w'] by simp
  qed
qed

lemma count_at_calls_lower: "n \<in> set (count_at_calls c events) \<Longrightarrow> c \<le> n"
proof (induction events arbitrary: c)
  case Nil
  then show ?case by simp
next
  case (Cons e events)
  show ?case
  proof (cases e)
    case NodeCounts
    with Cons.prems have "n \<in> set (count_at_calls (c + 1) events)" by simp
    then have "c + 1 \<le> n" by (rule Cons.IH)
    then show ?thesis by simp
  next
    case (StoreCall utcnow experiment_id data_hash metadata)
    with Cons.prems consider "n = c" | "n \<in> set (count_at_calls c events)" by auto
    then show ?thesis
    proof cases
      case 1
      then show ?thesis by simp
    next
      case 2
      then show ?thesis by (rule Cons.IH)
    qed
  qed
qed

lemma count_at_calls_sorted: "sorted (count_at_calls c events)"
proof (induction events arbitrary: c)
  case Nil
  show ?case by simp
next
  case (Cons e events)
  show ?case
  proof (cases e)
    case NodeCounts
    then show ?thesis using Cons.IH [of "c + 1"] by simp
  next
    case (StoreCall utcnow experiment_id data_hash metadata)
    then show ?thesis using Cons.IH [of c] by (auto dest: count_at_calls_lower)
  qed
qed

lemma count_at_calls_strict:
  "counted_between fresh events \<Longrightarrow>
     sorted_wrt (<) (count_at_calls c events) \<and>
     (\<not> fresh \<longrightarrow> (\<forall>n \<in> set (count_at_calls c events). c < n))"
proof (induction events arbitrary: c fresh)
  case Nil
  show ?case by simp
next
  case (Cons e events)
  show ?case
  proof (cases e)
    case NodeCounts
    with Cons.prems have "counted_between True events" by simp
    then have "sorted_wrt (<) (count_at_calls (c + 1) events)"
      using Cons.IH [of True "c + 1"] by simp
    moreover have "\<forall>n \<in> set (count_at_calls (c + 1) events). c < n"
      using count_at_calls_lower [of _ "c + 1" events] by fastforce
    ultimately show ?thesis using NodeCounts by simp
  next
    case (StoreCall utcnow experiment_id data_hash metadata)
    with Cons.prems have f: "fresh" and r: "counted_between False events" by simp_all
    from Cons.IH [OF r, of c] have "sorted_wrt (<) (count_at_calls c events)"
      "\<forall>n \<in> set (count_at_calls c events). c < n" by simp_all
    then show ?thesis using StoreCall f by simp
  qed
qed

lemma count_at_calls_stores:
  "\<forall>e \<in> set calls. is_store e \<Longrightarrow> count_at_calls c calls = replicate (length calls) c"
proof (induction calls)
  case Nil
  show ?case by simp
next
  case (Cons e calls)
  then show ?case by (cases e) simp_all
qed

lemma count_at_calls_alternating:
  "\<forall>e \<in> set calls. is_store e \<Longrightarrow>
     count_at_calls c (concat (map (\<lambda>e. [e, NodeCounts]) calls)) = [c ..< c + length calls]"
proof (induction calls arbitrary: c)
  case Nil
  show ?case by simp
next
  case (Cons e calls)
  from Cons.prems have "\<forall>e \<in> set calls. is_store e" by simp
  then have "count_at_calls (c + 1) (concat (map (\<lambda>e. [e, NodeCounts]) calls))
      = [c + 1 ..< c + 1 + length calls]" by (rule Cons.IH)
  moreover from Cons.prems obtain u i h m where "e = StoreCall u i h m" by (cases e) simp_all
  ultimately show ?case by (simp add: upt_conv_Cons del: upt_Suc)
qed

text \<open>
  Claim C9 says that store calls on one account never get the same sequence number.
  \<^verbatim>\<open>store_experiment_hash\<close> takes the number from the node at each call and keeps no
  lock, queue or counter of its own: two calls with no block of the node between them
  submit two transactions with the same number.
\<close>

theorem sequence_numbers_duplicate:
  "sequence_numbers
     \<lparr>is_connected = True, address = ''0x96d04FC0261b23e808B19A1F4580EB727B2C151D'',
      chain_id = 12227332, gas_price = 40000000000, transaction_count = 7,
      tx_hash_of = hexdigest \<circ> sha256 \<circ> encode \<circ> dumps \<circ> tx_data, transactions = Map.empty\<rparr>
     [StoreCall ''2025-12-07T10:15:27'' ''exp1'' ''ad28'' JNull,
      StoreCall ''2025-12-07T10:15:28'' ''exp2'' ''263e'' JNull] = [7, 7] \<and>
   \<not> distinct (sequence_numbers
     \<lparr>is_connected = True, address = ''0x96d04FC0261b23e808B19A1F4580EB727B2C151D'',
      chain_id = 12227332, gas_price = 40000000000, transaction_count = 7,
      tx_hash_of = hexdigest \<circ> sha256 \<circ> encode \<circ> dumps \<circ> tx_data, transactions = Map.empty\<rparr>
     [StoreCall ''2025-12-07T10:15:27'' ''exp1'' ''ad28'' JNull,
      StoreCall ''2025-12-07T10:15:28'' ''exp2'' ''263e'' JNull])"
  by (simp add: store_experiment_hash_def send_raw_transaction_def Let_def)

text \<open>
  Claim C9 as amended. Every store call takes as sequence number the count of the node at
  the time of the call. The numbers of successive calls never decrease. When the node
  counts between every two calls, they are strictly increasing and distinct; when it
  counts exactly once after every call, they are consecutive, without gaps; and calls
  with no count of the node between them all get the same number.
\<close>

theorem sequence_numbers_by_node_count:
  "sequence_numbers w events = count_at_calls (transaction_count w) events \<and>
   sorted (sequence_numbers w events) \<and>
   (counted_between True events \<longrightarrow>
      sorted_wrt (<) (sequence_numbers w events) \<and> distinct (sequence_numbers w events)) \<and>
   ((\<forall>e \<in> set calls. is_store e) \<longrightarrow>
      sequence_numbers w (concat (map (\<lambda>e. [e, NodeCounts]) calls))
        = [transaction_count w ..< transaction_count w + length calls] \<and>
      sequence_numbers w calls = replicate (length calls) (transaction_count w))"
proof (intro conjI impI)
  show "sequence_numbers w events = count_at_calls (transaction_count w) events"
    by (rule sequence_numbers_count)
  show "sorted (sequence_numbers w events)"
    unfolding sequence_numbers_count by (rule count_at_calls_sorted)
next
  assume "counted_between True events"
  then have s: "sorted_wrt (<) (count_at_calls (transaction_count w) events)"
    using count_at_calls_strict [of True events "transaction_count w"] by simp
  then show "sorted_wrt (<) (sequence_numbers w events)"
    unfolding sequence_numbers_count .
  from s show "distinct (sequence_numbers w events)"
    unfolding sequence_numbers_count by (simp add: strict_sorted_iff)
next
  assume c: "\<forall>e \<in> set calls. is_store e"
  then show "sequence_numbers w (concat (map (\<lambda>e. [e, NodeCounts]) calls))
        = [transaction_count w ..< transaction_count w + length calls]"
    unfolding sequence_numbers_count by (rule count_at_calls_alternating)
  from c show "sequence_numbers w calls = replicate (length calls) (transaction_count w)"
    unfolding sequence_numbers_count by (rule count_at_calls_stores)
qed

text \<open>
  The amended theorem at two store calls: with a count of the node between them, with a
  count after each of them, and with none.
\<close>

theorem sequence_numbers_by_node_count_witness:
  "(let w = \<lparr>is_connected = True, address = ''0x96d04FC0261b23e808B19A1F4580EB727B2C151D'',
               chain_id = 12227332, gas_price = 40000000000, transaction_count = 7,
               tx_hash_of = (\<lambda>tx. ''0x'' @ compute_hash (tx_data tx)), transactions = Map.empty\<rparr>;
        a = StoreCall ''2025-12-07T10:15:27'' ''exp1'' ''ad28'' JNull;
        b = StoreCall ''2025-12-07T10:15:28'' ''exp2'' ''263e'' JNull
    in sequence_numbers w [a, NodeCounts, b] = [7, 8] \<and>
       distinct (sequence_numbers w [a, NodeCounts, b]) \<and>
       sequence_numbers w [a, NodeCounts, b, NodeCounts] = [7, 8] \<and>
       sequence_numbers w [a, b] = [7, 7])"
proof -
  let ?w = "\<lparr>is_connected = True, address = ''0x96d04FC0261b23e808B19A1F4580EB727B2C151D'',
               chain_id = 12227332, gas_price = 40000000000, transaction_count = 7,
               tx_hash_of = (\<lambda>tx. ''0x'' @ compute_hash (tx_data tx)), transactions = Map.empty\<rparr>"
  let ?a = "StoreCall ''2025-12-07T10:15:27'' ''exp1'' ''ad28'' JNull"
  let ?b = "StoreCall ''2025-12-07T10:15:28'' ''exp2'' ''263e'' JNull"
  have h1: "counted_between True [?a, NodeCounts, ?b]" by simp
  have h2: "\<forall>e \<in> set [?a, ?b]. is_store e" by simp
  from sequence_numbers_by_node_count [of ?w "[?a, NodeCounts, ?b]" "[?a, ?b]"] h1 h2
  have "sequence_numbers ?w [?a, NodeCounts, ?b] = count_at_calls (transaction_count ?w) [?a, NodeCounts, ?b]"
    "distinct (sequence_numbers ?w [?a, NodeCounts, ?b])"
    "sequence_numbers ?w (concat (map (\<lambda>e. [e, NodeCounts]) [?a, ?b]))
        = [transaction_count ?w ..< transaction_count ?w + length [?a, ?b]]"
    "sequence_numbers ?w [?a, ?b] = replicate (length [?a, ?b]) (transaction_count ?w)"
    by blast+
  then show ?thesis by (simp add: Let_def upt_conv_Cons del: upt_Suc)
qed

section \<open>Properties of the tool-call loop\<close>

lemma run_Done: "phase (run a s) = Done"
proof (induction a s rule: run.induct)
  case (1 a s)
  show ?case
  proof (cases "phase s = Done")
    case True
    then show ?thesis by (subst run.simps) simp
  next
    case False
    with 1 have "phase (run a (step a s)) = Done" by simp
    with False show ?thesis by (subst run.simps) simp
  qed
qed

lemma distance_zero: "distance a s = 0 \<longleftrightarrow> phase s = Done"
  by (cases "phase s") (simp_all add: distance_def)

lemma funpow_step_Done: "phase s = Done \<Longrightarrow> (step a ^^ n) s = s"
  by (induction n) (simp_all add: step_Done)

lemma run_steps: "distance a s \<le> n \<Longrightarrow> run a s = (step a ^^ n) s"
proof (induction n arbitrary: s)
  case 0
  then have "phase s = Done" by (simp add: distance_zero)
  then show ?case by (subst run.simps) simp
next
  case (Suc n)
  show ?case
  proof (cases "phase s = Done")
    case True
    then have "run a s = s" by (subst run.simps) simp
    with True show ?thesis by (simp only: funpow_step_Done)
  next
    case False
    then have "distance a (step a s) < distance a s" by (rule step_distance)
    with Suc.prems have "distance a (step a s) \<le> n" by simp
    then have "run a (step a s) = (step a ^^ n) (step a s)" by (rule Suc.IH)
    moreover from False have "run a s = run a (step a s)" by (subst run.simps) simp
    ultimately show ?thesis by (simp add: funpow_swap1)
  qed
qed

text \<open>A property that every transition keeps holds at the end of the loop.\<close>

lemma run_invariant:
  assumes "\<And>s. P s \<Longrightarrow> P (step a s)" "P s"
  shows "P (run a s)"
proof -
  have "P ((step a ^^ n) s)" for n
    by (induction n) (simp_all add: assms)
  moreover have "run a s = (step a ^^ distance a s) s"
    by (rule run_steps) simp
  ultimately show ?thesis by simp
qed

lemma step_iterations_bound:
  "iterations s \<le> max_iterations a \<Longrightarrow> iterations (step a s) \<le> max_iterations a"
proof (cases "phase s")
  case Idle
  then show "iterations s \<le> max_iterations a \<Longrightarrow> ?thesis" by (simp add: step_Idle)
next
  case Reasoning
  from step_Reasoning [OF this, of a]
  show "iterations s \<le> max_iterations a \<Longrightarrow> ?thesis" by auto
next
  case ToolSelected
  from step_ToolSelected [OF this, of a]
  show "iterations s \<le> max_iterations a \<Longrightarrow> ?thesis" by simp
next
  case ToolExecuting
  from step_ToolExecuting [OF this, of a]
  show "iterations s \<le> max_iterations a \<Longrightarrow> ?thesis" by simp
next
  case Responding
  then show "iterations s \<le> max_iterations a \<Longrightarrow> ?thesis" by (simp add: step_Responding)
next
  case Done
  then show "iterations s \<le> max_iterations a \<Longrightarrow> ?thesis" by (simp add: step_Done)
qed

lemma step_Reasoning_request:
  assumes "phase s = Reasoning" "reason a (reasoning_context s) = ToolCallRequest name params"
    "name \<in> allowed_tools a"
  shows "step a s =
     (if max_iterations a \<le> iterations s then
        s\<lparr>phase := Responding, reply := partial_answer a (reasoning_context s),
          flag := Some MaxIterationsExceeded\<rparr>
      else s\<lparr>phase := ToolSelected, selected := Some (name, params),
             iterations := iterations s + 1\<rparr>)"
  using assms by (simp add: step_def)

lemma step_bounded_out:
  assumes adversarial:
    "\<forall>ctx. \<exists>name params. reason a ctx = ToolCallRequest name params \<and> name \<in> allowed_tools a"
    and inv: "bounded_out a s"
  shows "bounded_out a (step a s)"
proof (cases "phase s")
  case Idle
  with inv show ?thesis by (simp add: step_Idle bounded_out_def)
next
  case Reasoning
  from adversarial obtain name params where
    "reason a (reasoning_context s) = ToolCallRequest name params" "name \<in> allowed_tools a"
    by blast
  from step_Reasoning_request [OF Reasoning this] inv show ?thesis
    by (simp add: bounded_out_def)
next
  case ToolSelected
  from step_ToolSelected [OF this, of a] inv show ?thesis
    by (auto simp: bounded_out_def)
next
  case ToolExecuting
  from step_ToolExecuting [OF this, of a] inv show ?thesis
    by (auto simp: bounded_out_def)
next
  case Responding
  with inv show ?thesis by (simp add: step_Responding bounded_out_def)
next
  case Done
  with inv show ?thesis by (simp add: step_Done)
qed

text \<open>
  Claim C8. For every agent (every reasoning engine, every tool and so every sequence of
  tool responses) and every user text, the loop reaches \<^verbatim>\<open>Done\<close>: after at most
  three transitions for each of the \<open>max_iterations\<close> iterations and four more, and with
  at most \<open>max_iterations\<close> iterations counted. With an engine that always requests
  another (allowed) tool call, the turn ends with the flag
  \<^verbatim>\<open>MaxIterationsExceeded\<close>, exactly \<open>max_iterations\<close> iterations and the
  best-effort partial answer as reply.
\<close>

theorem tool_loop_terminates:
  "phase (run a (initial user_text)) = Done \<and>
   run a (initial user_text) = (step a ^^ (3 * max_iterations a + 4)) (initial user_text) \<and>
   iterations (run a (initial user_text)) \<le> max_iterations a \<and>
   ((\<forall>ctx. \<exists>name params. reason a ctx = ToolCallRequest name params \<and> name \<in> allowed_tools a) \<longrightarrow>
      flag (run a (initial user_text)) = Some MaxIterationsExceeded \<and>
      iterations (run a (initial user_text)) = max_iterations a \<and>
      reply (run a (initial user_text)) =
        partial_answer a (reasoning_context (run a (initial user_text))))"
proof (intro conjI impI)
  show "phase (run a (initial user_text)) = Done" by (rule run_Done)
next
  show "run a (initial user_text) = (step a ^^ (3 * max_iterations a + 4)) (initial user_text)"
    by (rule run_steps) (simp add: distance_def initial_def)
next
  show "iterations (run a (initial user_text)) \<le> max_iterations a"
    by (rule run_invariant [where P = "\<lambda>s. iterations s \<le> max_iterations a"])
       (simp_all add: step_iterations_bound initial_def)
next
  assume adversarial:
    "\<forall>ctx. \<exists>name params. reason a ctx = ToolCallRequest name params \<and> name \<in> allowed_tools a"
  have "bounded_out a (initial user_text)"
    by (simp add: bounded_out_def initial_def)
  with step_bounded_out [OF adversarial] have "bounded_out a (run a (initial user_text))"
    by (rule run_invariant)
  then have out: "flag (run a (initial user_text)) = Some MaxIterationsExceeded \<and>
      iterations (run a (initial user_text)) = max_iterations a \<and>
      reply (run a (initial user_text)) =
        partial_answer a (reasoning_context (run a (initial user_text)))"
    by (simp add: bounded_out_def run_Done)
  from out show "flag (run a (initial user_text)) = Some MaxIterationsExceeded" by simp
  from out show "iterations (run a (initial user_text)) = max_iterations a" by simp
  from out show "reply (run a (initial user_text)) =
        partial_answer a (reasoning_context (run a (initial user_text)))" by simp
qed

text \<open>
  The theorem at an agent with a bound of two iterations whose engine requests the same
  tool at every turn.
\<close>

theorem tool_loop_terminates_witness:
  "(let a = \<lparr>allowed_tools = {''get_protocol''},
              registry = [''get_protocol'' \<mapsto> \<lparr>accepts = (\<lambda>params. True),
                                               run_tool = (\<lambda>ctx params. Ok JNull)\<rparr>],
              max_iterations = 2,
              reason = (\<lambda>ctx. ToolCallRequest ''get_protocol'' JNull),
              partial_answer = (\<lambda>ctx. ''partial answer''),
              apology = (\<lambda>name. ''this tool is not available'')\<rparr>;
        s = run a (initial ''which protocol?'')
    in phase s = Done \<and> flag s = Some MaxIterationsExceeded \<and> iterations s = 2 \<and>
       reply s = ''partial answer'')"
proof -
  let ?a = "\<lparr>allowed_tools = {''get_protocol''},
              registry = [''get_protocol'' \<mapsto> \<lparr>accepts = (\<lambda>params. True),
                                               run_tool = (\<lambda>ctx params. Ok JNull)\<rparr>],
              max_iterations = 2,
              reason = (\<lambda>ctx. ToolCallRequest ''get_protocol'' JNull),
              partial_answer = (\<lambda>ctx. ''partial answer''),
              apology = (\<lambda>name. ''this tool is not available'')\<rparr>"
  let ?s = "run ?a (initial ''which protocol?'')"
  note t = tool_loop_terminates [of ?a "''which protocol?''"]
  have adversarial:
    "\<forall>ctx. \<exists>name params. reason ?a ctx = ToolCallRequest name params \<and> name \<in> allowed_tools ?a"
    by simp
  from t have "phase ?s = Done" by blast
  moreover from t adversarial have "flag ?s = Some MaxIterationsExceeded \<and>
      iterations ?s = max_iterations ?a \<and> reply ?s = partial_answer ?a (reasoning_context ?s)"
    by blast
  ultimately show ?thesis by (simp add: Let_def)
qed

section \<open>The spec's example data\<close>

text \<open>
  The digests of the spec's example data, \<^verbatim>\<open>{"id": "exp1", "value": 42}\<close> and the
  same with value 43: the values that \<^verbatim>\<open>hashlib.sha256\<close> gives for these two
  serializations.
\<close>

lemma compute_hash_exp1_42:
  "compute_hash (JDict [(''id'', JStr ''exp1''), (''value'', JInt 42)]) =
     ''ad2867567c5b0ae53c2131a80cd6b2ec029f78e03954472ef3ce3cd3d0610efb''"
  by code_simp

lemma compute_hash_exp1_43:
  "compute_hash (JDict [(''id'', JStr ''exp1''), (''value'', JInt 43)]) =
     ''263ee6ac2ea9b4015601a42e997b7976167e5a548deb6d90cf36cff7d78febaa''"
  by code_simp

theorem compute_hash_scenario:
  "compute_hash (JDict [(''id'', JStr ''exp1''), (''value'', JInt 42)]) =
     ''ad2867567c5b0ae53c2131a80cd6b2ec029f78e03954472ef3ce3cd3d0610efb'' \<and>
   compute_hash (JDict [(''id'', JStr ''exp1''), (''value'', JInt 43)]) =
     ''263ee6ac2ea9b4015601a42e997b7976167e5a548deb6d90cf36cff7d78febaa'' \<and>
   compute_hash (JDict [(''id'', JStr ''exp1''), (''value'', JInt 42)]) \<noteq>
   compute_hash (JDict [(''id'', JStr ''exp1''), (''value'', JInt 43)])"
  unfolding compute_hash_exp1_42 compute_hash_exp1_43 by simp

text \<open>
  The scenario of the spec on the service: the digest of the data with value 42 is stored
  under the transaction hash \<open>T\<close>; the same data verifies as \<^verbatim>\<open>MATCH\<close>, in either
  order of its fields, and the data with value 43 as \<^verbatim>\<open>MISMATCH\<close>.
\<close>

theorem verify_scenario:
  "(let D = JDict [(''id'', JStr ''exp1''), (''value'', JInt 42)];
        w = \<lparr>is_connected = True, address = ''0x96d04FC0261b23e808B19A1F4580EB727B2C151D'',
               chain_id = 12227332, gas_price = 40000000000, transaction_count = 0,
               tx_hash_of = (\<lambda>tx. ''0xa8c9d3e2''), transactions = Map.empty\<rparr>;
        (T, w') = store_experiment_hash w ''2025-12-07T10:15:27'' ''exp1'' (compute_hash D) JNull
    in verify w' D T = MATCH \<and>
       verify w' (JDict [(''value'', JInt 42), (''id'', JStr ''exp1'')]) T = MATCH \<and>
       verify w' (JDict [(''id'', JStr ''exp1''), (''value'', JInt 43)]) T = MISMATCH)"
proof -
  have "same_data (JDict [(''id'', JStr ''exp1''), (''value'', JInt 42)])
                  (JDict [(''value'', JInt 42), (''id'', JStr ''exp1'')])"
    by auto
  then have "dumps (JDict [(''id'', JStr ''exp1''), (''value'', JInt 42)]) =
      dumps (JDict [(''value'', JInt 42), (''id'', JStr ''exp1'')])"
    by (rule dumps_same_data)
  then have "compute_hash (JDict [(''value'', JInt 42), (''id'', JStr ''exp1'')]) =
      compute_hash (JDict [(''id'', JStr ''exp1''), (''value'', JInt 42)])"
    by (simp only: compute_hash_def)
  moreover have "compute_hash (JDict [(''id'', JStr ''exp1''), (''value'', JInt 43)]) \<noteq>
      compute_hash (JDict [(''id'', JStr ''exp1''), (''value'', JInt 42)])"
    unfolding compute_hash_exp1_42 compute_hash_exp1_43 by simp
  ultimately show ?thesis
    by (simp add: Let_def store_experiment_hash_def send_raw_transaction_def verify_def
        stored_digest_def)
qed

section \<open>The message of the routing scenario\<close>

text \<open>
  Neither of the two rules that the source shows matches the message
  \<^verbatim>\<open>Check my Neo X balance\<close>, the empty message or \<^verbatim>\<open>hello there\<close>:
  \<^verbatim>\<open>classify_intent\<close> as shown returns \<^verbatim>\<open>None\<close> for them, and their agent and
  intent are those of the rules and of the default that the source elides.
\<close>

theorem classify_intent_neo_x:
  "\<not> search pcr_pattern ''Check my Neo X balance'' \<and>
   \<not> search experiment_pattern ''Check my Neo X balance'' \<and>
   classify_intent ''Check my Neo X balance'' = None \<and>
   classify_intent '''' = None \<and>
   classify_intent ''hello there'' = None"
proof -
  have "\<not> search pcr_pattern ''Check my Neo X balance''"
    "\<not> search experiment_pattern ''Check my Neo X balance''"
    "\<not> search pcr_pattern ''''" "\<not> search experiment_pattern ''''"
    "\<not> search pcr_pattern ''hello there''" "\<not> search experiment_pattern ''hello there''"
    by code_simp+
  then show ?thesis by (simp add: classify_intent_def)
qed

end
